theory Spec2Isabelle
  imports Complex_Main "HOL-Library.Sublist"
begin

section \<open>The book transition driver (\<open>animate\<close>, main.js lines 731-767)\<close>

text \<open>
  The file main.js holds the script twice: lines 1-917, and a second, simpler version
  from line 918 on (no book transition on navigation, no team bees). The definitions
  below follow the first, to which all line numbers refer.

  JavaScript numbers are IEEE doubles. The transition arithmetic is modelled over the
  reals: the literals \<open>0.6\<close>, \<open>0.4\<close>, \<open>0.2\<close>, \<open>1.57\<close>, \<open>1.4\<close>, \<open>0.10\<close>
  and \<open>0.05\<close> stand for the decimal fractions the source writes, and rounding is not
  modelled.

  \<open>let bookState = { value: 1.0, target: 1.0 }\<close> (line 510).
\<close>

record bookState =
  bs_value :: real
  bs_target :: real

definition initialBookState :: bookState where
  "initialBookState = \<lparr>bs_value = 1.0, bs_target = 1.0\<rparr>"

text \<open>
  Lines 733-734:
  \<^verbatim>\<open>const lerpSpeed = (bookState.target < bookState.value) ? 0.10 : 0.05;\<close>
  \<^verbatim>\<open>bookState.value += (bookState.target - bookState.value) * lerpSpeed;\<close>
\<close>

definition lerpSpeed :: "bookState \<Rightarrow> real" where
  "lerpSpeed b = (if bs_target b < bs_value b then 0.10 else 0.05)"

definition animate_bookState :: "bookState \<Rightarrow> bookState" where
  "animate_bookState b =
     b\<lparr>bs_value := bs_value b + (bs_target b - bs_value b) * lerpSpeed b\<rparr>"

text \<open>
  Lines 737-767: the three locals the frame derives from \<open>bookState.value\<close>, with the
  source's branch order.
\<close>

record frameParams =
  contentScale :: real
  bookRotation :: real
  currentBookScale :: real

definition animate_derived :: "real \<Rightarrow> frameParams" where
  "animate_derived v =
     (if v > 0.6 then
        \<lparr>contentScale = (v - 0.6) / 0.4, bookRotation = 0, currentBookScale = 1.4\<rparr>
      else if v > 0.2 then
        (let pct = (v - 0.2) / 0.4
         in \<lparr>contentScale = 0, bookRotation = (1 - pct) * 1.57, currentBookScale = 1.4\<rparr>)
      else
        (let pct = v / 0.2
         in \<lparr>contentScale = 0, bookRotation = 1.57, currentBookScale = pct * 1.4\<rparr>))"

text \<open>One frame: the value is advanced first, the parameters are derived from the new value.\<close>

definition animate :: "bookState \<Rightarrow> bookState \<times> frameParams" where
  "animate b = (let b' = animate_bookState b in (b', animate_derived (bs_value b')))"

text \<open>\<open>n\<close> frames in a row, with no navigation event between them.\<close>

fun frames :: "nat \<Rightarrow> bookState \<Rightarrow> bookState" where
  "frames 0 b = b"
| "frames (Suc n) b = frames n (animate_bookState b)"

text \<open>
  The number of frames until the value first satisfies \<open>P\<close>, looking at no more than
  \<open>fuel\<close> frames; \<open>None\<close> when the value does not get there within the fuel.
\<close>

fun framesUntil :: "(real \<Rightarrow> bool) \<Rightarrow> nat \<Rightarrow> bookState \<Rightarrow> nat option" where
  "framesUntil P 0 b = (if P (bs_value b) then Some 0 else None)"
| "framesUntil P (Suc fuel) b =
     (if P (bs_value b) then Some 0
      else map_option Suc (framesUntil P fuel (animate_bookState b)))"

section \<open>JavaScript values\<close>

text \<open>
  Strings are byte lists, the UTF-8 form of the source's text. The string operations of
  the source search for whole characters, and in UTF-8 the bytes of a character match
  nowhere but at that character. A value is what \<open>JSON.parse\<close> can give, or
  \<open>undefined\<close>.
\<close>

datatype jsval =
  JUndefined | JNull | JBool bool | JNum real | JStr string
  | JArr "jsval list" | JObj "(string \<times> jsval) list"

text \<open>
  What \<open>innerHTML\<close> holds. The two templates \<open>generateSpeciesProfile\<close> writes are kept
  by the values they interpolate (lines 158-175: icon, name, latin name, the category up
  to its first parenthesis, habitat, description; line 179: the error's message); any
  other markup is \<open>Static\<close>.
\<close>

datatype html =
  Static
  | SpeciesCard jsval jsval jsval string jsval jsval
  | ParseErrorNote string

section \<open>Navigation (\<open>switchPage\<close>, main.js lines 189-287)\<close>

text \<open>
  The page's markup is not part of the source: the document is a parameter of the model.
  It is the list of its elements in document order, an element being known by its place
  in the list. An element carries what \<open>switchPage\<close> reads and writes: its id (empty
  when it has none), its class list, its \<open>onclick\<close> attribute, the first \<open>div\<close> below
  it (what \<open>querySelector('div')\<close> finds), its \<open>style.opacity\<close> and its \<open>innerHTML\<close>.
\<close>

datatype error = TypeError

record element =
  elemId :: string
  classList :: "string list"
  onclick :: "string option"
  firstDiv :: "nat option"
  style_opacity :: string
  innerHTML :: html

text \<open>\<open>document.getElementById\<close>: the first element with the id; \<open>null\<close> for the empty id.\<close>

fun findId :: "string \<Rightarrow> element list \<Rightarrow> nat option" where
  "findId i [] = None"
| "findId i (e # es) = (if elemId e = i then Some 0 else map_option Suc (findId i es))"

definition getElementById :: "element list \<Rightarrow> string \<Rightarrow> nat option" where
  "getElementById d i = (if i = [] then None else findId i d)"

text \<open>\<open>classList.contains\<close>, \<open>classList.add\<close> and \<open>classList.remove\<close> (each of several tokens).\<close>

definition contains :: "string \<Rightarrow> element \<Rightarrow> bool" where
  "contains c e = (c \<in> set (classList e))"

definition classList_add :: "string list \<Rightarrow> element \<Rightarrow> element" where
  "classList_add cs e =
     e\<lparr>classList := fold (\<lambda>c l. if c \<in> set l then l else l @ [c]) cs (classList e)\<rparr>"

definition classList_remove :: "string list \<Rightarrow> element \<Rightarrow> element" where
  "classList_remove cs e = e\<lparr>classList := filter (\<lambda>c. c \<notin> set cs) (classList e)\<rparr>"

text \<open>A write to the element at place \<open>i\<close>.\<close>

definition update_at :: "nat \<Rightarrow> (element \<Rightarrow> element) \<Rightarrow> element list \<Rightarrow> element list" where
  "update_at i f d = (if i < length d then d[i := f (d ! i)] else d)"

text \<open>
  \<open>document.querySelectorAll('.c').forEach(el => ...)\<close>, for a callback that writes to
  its own element only: the node list is fixed before the first call.
\<close>

definition forEach_class :: "string \<Rightarrow> (element \<Rightarrow> element) \<Rightarrow> element list \<Rightarrow> element list" where
  "forEach_class c f d = map (\<lambda>e. if contains c e then f e else e) d"

text \<open>\<open>String.prototype.includes\<close>.\<close>

fun str_includes :: "string \<Rightarrow> string \<Rightarrow> bool" where
  "str_includes [] p = (p = [])"
| "str_includes (c # s) p = (prefix p (c # s) \<or> str_includes s p)"

text \<open>
  Pending timers. \<open>switchPage\<close> starts three kinds: the 500 ms wait of its own
  \<open>await\<close> (line 197), after which the rest of the function runs; the 800 ms canvas
  opacity change (lines 241-247), which keeps the canvas element and the page id it was
  started with; and the 2000 ms team bees activation (lines 275-282). The timers of the
  team card (lines 415-435) write none of the state kept here and are left out.
\<close>

datatype callback = Resume string | CanvasOpacity "nat option" string | TeamBees

record timer =
  t_handle :: nat
  t_delay :: nat
  t_callback :: callback

record page =
  document :: "element list"
  bookState :: bookState
  teamBeeGroup_visible :: bool
  teamBeeTimer :: "nat option"
  timers :: "timer list"
  nextHandle :: nat

definition setTimeout :: "callback \<Rightarrow> nat \<Rightarrow> page \<Rightarrow> nat \<times> page" where
  "setTimeout cb ms s =
     (nextHandle s,
      s\<lparr>timers := timers s @ [\<lparr>t_handle = nextHandle s, t_delay = ms, t_callback = cb\<rparr>],
        nextHandle := Suc (nextHandle s)\<rparr>)"

definition clearTimeout :: "nat \<Rightarrow> page \<Rightarrow> page" where
  "clearTimeout h s = s\<lparr>timers := filter (\<lambda>t. t_handle t \<noteq> h) (timers s)\<rparr>"

definition header_solid :: "string list" where
  "header_solid = [''bg-black/90'', ''backdrop-blur-md'', ''shadow-2xl'', ''border-b'', ''border-white/10'']"

definition nav_pill :: "string list" where
  "nav_pill = [''bg-black/50'', ''backdrop-blur-md'', ''border'', ''border-white/10'', ''shadow-lg'']"

text \<open>
  Lines 201-215, run when \<open>pageId === 'home'\<close>. Reading a property of a missing element
  raises a \<open>TypeError\<close>.
\<close>

definition enterHome :: "page \<Rightarrow> error + page" where
  "enterHome s =
     (let b = (bookState s)\<lparr>bs_target := 1.0\<rparr>; d = document s in
      case getElementById d ''canvas-container'' of
        None \<Rightarrow> Inl TypeError
      | Some canvas \<Rightarrow>
          (let d1 = update_at canvas (\<lambda>e. e\<lparr>style_opacity := ''1''\<rparr>) d in
           case getElementById d1 ''main-header'' of
             None \<Rightarrow> Inl TypeError
           | Some header \<Rightarrow>
               (let d2 = update_at header (classList_remove header_solid) d1;
                    d3 = update_at header (classList_add [''py-6'']) d2 in
                case getElementById d3 ''nav-container'' of
                  None \<Rightarrow> Inl TypeError
                | Some navContainer \<Rightarrow>
                    Inr (s\<lparr>bookState := b,
                           document := update_at navContainer (classList_add nav_pill) d3\<rparr>))))"

text \<open>Lines 218-234: every page section loses the marker, the target (if any) gets it.\<close>

definition swapSections :: "string \<Rightarrow> element list \<Rightarrow> element list" where
  "swapSections pageId d =
     (let isHome = (pageId = ''home'');
          d1 = forEach_class ''page-section''
                 (\<lambda>e. classList_remove [''page-transition-enter''] (classList_remove [''active''] e)) d
      in case getElementById d1 (if isHome then ''home-page'' else pageId) of
           None \<Rightarrow> d1
         | Some target \<Rightarrow>
             (let d2 = update_at target (classList_add [''active'']) d1 in
              if \<not> isHome then
                (case firstDiv (d2 ! target) of
                   None \<Rightarrow> d2
                 | Some contentContainer \<Rightarrow>
                     update_at contentContainer (classList_add [''page-transition-enter'']) d2)
              else d2))"

text \<open>Lines 237-255, run when \<open>pageId\<close> is not \<open>'home'\<close>.\<close>

definition nonHomeChrome :: "string \<Rightarrow> page \<Rightarrow> error + page" where
  "nonHomeChrome pageId s =
     (let canvas = getElementById (document s) ''canvas-container'';
          s1 = snd (setTimeout (CanvasOpacity canvas pageId) 800 s);
          d = document s1 in
      case getElementById d ''main-header'' of
        None \<Rightarrow> Inl TypeError
      | Some header \<Rightarrow>
          (let d1 = update_at header (classList_add header_solid) d;
               d2 = update_at header (classList_remove [''py-6'']) d1 in
           case getElementById d2 ''nav-container'' of
             None \<Rightarrow> Inl TypeError
           | Some navContainer \<Rightarrow>
               Inr (s1\<lparr>document := update_at navContainer (classList_remove nav_pill) d2\<rparr>)))"

text \<open>
  Lines 258-267. \<open>link.getAttribute('onclick')\<close> is \<open>null\<close> for a link with no such
  attribute, and \<open>.includes\<close> on it raises.
\<close>

definition updateNavLinks :: "string \<Rightarrow> element list \<Rightarrow> error + element list" where
  "updateNavLinks pageId d =
     (let d1 = forEach_class ''nav-link'' (classList_remove [''text-[#D4AF37]'']) d in
      if list_ex (\<lambda>e. contains ''nav-link'' e \<and> onclick e = None) d1 then Inl TypeError
      else Inr (forEach_class ''nav-link''
                  (\<lambda>link. case onclick link of
                             None \<Rightarrow> link
                           | Some a \<Rightarrow> if str_includes a pageId
                                       then classList_add [''text-[#D4AF37]''] link else link) d1))"

text \<open>
  Lines 271-286. A timer handle is a positive number; \<open>if (teamBeeTimer)\<close> is false for
  \<open>null\<close> and for \<open>0\<close>.
\<close>

definition teamBeesLogic :: "string \<Rightarrow> page \<Rightarrow> page" where
  "teamBeesLogic pageId s =
     (let s1 = (case teamBeeTimer s of
                  None \<Rightarrow> s
                | Some h \<Rightarrow> if h \<noteq> 0 then clearTimeout h s else s)
      in if pageId = ''team'' then
           (let (h, s2) = setTimeout TeamBees 2000 s1 in s2\<lparr>teamBeeTimer := Some h\<rparr>)
         else s1\<lparr>teamBeeGroup_visible := False\<rparr>)"

text \<open>The function from line 200 on: what runs after the wait, or at once when there is none.\<close>

definition switchPage_resume :: "page \<Rightarrow> string \<Rightarrow> error + page" where
  "switchPage_resume s pageId =
     (let isHome = (pageId = ''home'') in
      case (if isHome then enterHome s else Inr s) of
        Inl e \<Rightarrow> Inl e
      | Inr s1 \<Rightarrow>
          (let s2 = s1\<lparr>document := swapSections pageId (document s1)\<rparr> in
           case (if \<not> isHome then nonHomeChrome pageId s2 else Inr s2) of
             Inl e \<Rightarrow> Inl e
           | Inr s3 \<Rightarrow>
               (case updateNavLinks pageId (document s3) of
                  Inl e \<Rightarrow> Inl e
                | Inr d \<Rightarrow> Inr (teamBeesLogic pageId (s3\<lparr>document := d\<rparr>)))))"

text \<open>
  An invocation (lines 189-198). Leaving home, it closes the book and waits 500 ms before
  the rest; the wait is a pending \<open>Resume\<close> timer. An exception inside the \<open>async\<close>
  function rejects its promise: \<open>Inl\<close>.
\<close>

definition switchPage :: "page \<Rightarrow> string \<Rightarrow> error + page" where
  "switchPage s pageId =
     (let isHome = (pageId = ''home'') in
      case getElementById (document s) ''home-page'' of
        None \<Rightarrow> Inl TypeError
      | Some home \<Rightarrow>
          (let currentIsHome = contains ''active'' (document s ! home) in
           if currentIsHome \<and> \<not> isHome then
             Inr (snd (setTimeout (Resume pageId) 500
                         (s\<lparr>bookState := (bookState s)\<lparr>bs_target := 0.0\<rparr>\<rparr>)))
           else switchPage_resume s pageId))"

text \<open>The two timer callbacks of lines 241-247 and 275-282.\<close>

definition canvasOpacityCallback :: "nat option \<Rightarrow> string \<Rightarrow> page \<Rightarrow> error + page" where
  "canvasOpacityCallback canvas pageId s =
     (case canvas of
        None \<Rightarrow> Inl TypeError
      | Some c \<Rightarrow>
          Inr (s\<lparr>document :=
                   update_at c (\<lambda>e. e\<lparr>style_opacity := (if pageId = ''team'' then ''1'' else ''0.3'')\<rparr>)
                     (document s)\<rparr>))"

definition teamBeesCallback :: "page \<Rightarrow> error + page" where
  "teamBeesCallback s =
     (case getElementById (document s) ''team'' of
        None \<Rightarrow> Inl TypeError
      | Some team \<Rightarrow>
          if contains ''active'' (document s ! team) then
            (case getElementById (document s) ''canvas-container'' of
               None \<Rightarrow> Inl TypeError
             | Some c \<Rightarrow>
                 Inr (s\<lparr>teamBeeGroup_visible := True,
                        document := update_at c (\<lambda>e. e\<lparr>style_opacity := ''1''\<rparr>) (document s)\<rparr>))
          else Inr s)"

text \<open>
  What can happen to the page: a frame is drawn, a pending timer fires, the user
  navigates. Timers may fire in any order here, which covers the order their delays give.
  A handle with nothing pending fires nothing. Of a frame, only the book state is kept:
  the camera, the scene and the fade of the team bees (lines 705-845) are not part of the
  page state here, and \<open>animate\<close> writes neither the document nor
  \<open>teamBeeGroup.visible\<close>.
\<close>

datatype event = Frame | Timeout nat | Navigate string

definition fire :: "nat \<Rightarrow> page \<Rightarrow> error + page" where
  "fire h s =
     (case find (\<lambda>t. t_handle t = h) (timers s) of
        None \<Rightarrow> Inr s
      | Some t \<Rightarrow>
          (let s1 = s\<lparr>timers := remove1 t (timers s)\<rparr> in
           case t_callback t of
             Resume pageId \<Rightarrow> switchPage_resume s1 pageId
           | CanvasOpacity canvas pageId \<Rightarrow> canvasOpacityCallback canvas pageId s1
           | TeamBees \<Rightarrow> teamBeesCallback s1))"

fun step :: "event \<Rightarrow> page \<Rightarrow> error + page" where
  "step Frame s = Inr (s\<lparr>bookState := fst (animate (bookState s))\<rparr>)"
| "step (Timeout h) s = fire h s"
| "step (Navigate pageId) s = switchPage s pageId"

fun run :: "event list \<Rightarrow> page \<Rightarrow> error + page" where
  "run [] s = Inr s"
| "run (e # es) s = (case step e s of Inl err \<Rightarrow> Inl err | Inr s' \<Rightarrow> run es s')"

text \<open>The page sections that carry the active marker.\<close>

definition activeSections :: "element list \<Rightarrow> nat list" where
  "activeSections d =
     filter (\<lambda>i. contains ''page-section'' (d ! i) \<and> contains ''active'' (d ! i)) [0..<length d]"

text \<open>
  What \<open>switchPage\<close> needs of the markup: the four elements it reads without a check
  exist, the home page is a page section, and every navigation link has an \<open>onclick\<close>.
\<close>

definition wf_document :: "element list \<Rightarrow> bool" where
  "wf_document d =
     ((case getElementById d ''home-page'' of
         None \<Rightarrow> False
       | Some home \<Rightarrow> contains ''page-section'' (d ! home)) \<and>
      getElementById d ''canvas-container'' \<noteq> None \<and>
      getElementById d ''main-header'' \<noteq> None \<and>
      getElementById d ''nav-container'' \<noteq> None \<and>
      \<not> list_ex (\<lambda>e. contains ''nav-link'' e \<and> onclick e = None) d)"





subsection \<open>Notions used in the proofs\<close>

text \<open>
  Two documents agree on a set of class names when they have the same elements with the
  same ids and \<open>onclick\<close> attributes and the same membership of those classes; a write
  keeps a set of class names when every element agrees with itself after it.
\<close>

definition agree :: "string set \<Rightarrow> element list \<Rightarrow> element list \<Rightarrow> bool" where
  "agree cs d d' =
     (length d' = length d \<and>
      (\<forall>j<length d. elemId (d' ! j) = elemId (d ! j) \<and> onclick (d' ! j) = onclick (d ! j) \<and>
         (\<forall>c\<in>cs. contains c (d' ! j) = contains c (d ! j))))"

definition keeps :: "string set \<Rightarrow> (element \<Rightarrow> element) \<Rightarrow> bool" where
  "keeps cs f =
     (\<forall>e. elemId (f e) = elemId e \<and> onclick (f e) = onclick e \<and>
        (\<forall>c\<in>cs. contains c (f e) = contains c e))"

definition KS :: "string set" where
  "KS = {''page-section'', ''nav-link''}"

definition KA :: "string set" where
  "KA = {''page-section'', ''nav-link'', ''active''}"

definition resumed :: "page \<Rightarrow> string \<Rightarrow> page \<Rightarrow> bool" where
  "resumed s pageId s3 =
     (agree KS (document s) (document s3) \<and>
      (\<forall>j<length (document s). contains ''page-section'' (document s ! j) \<longrightarrow>
         contains ''active'' (document s3 ! j) =
           (getElementById (document s) (if pageId = ''home'' then ''home-page'' else pageId) = Some j)) \<and>
      teamBeeGroup_visible s3 = teamBeeGroup_visible s \<and>
      teamBeeTimer s3 = teamBeeTimer s \<and>
      nextHandle s \<le> nextHandle s3 \<and>
      (pageId \<noteq> ''home'' \<longrightarrow> bookState s3 = bookState s) \<and>
      (\<exists>extra. timers s3 = timers s @ extra \<and>
         (\<forall>t\<in>set extra. \<exists>c q. t_callback t = CanvasOpacity (Some c) q)))"

definition HS :: "string set" where
  "HS = insert ''py-6'' (set header_solid)"







subsection \<open>An example page\<close>

text \<open>
  A small page for the concrete checks: three page sections (home, active; hive, with a
  content \<open>div\<close>; team), the header, the navigation container, the canvas container,
  three navigation links and the two elements of the species card.
\<close>

definition el :: "string \<Rightarrow> string list \<Rightarrow> element" where
  "el i cs = \<lparr>elemId = i, classList = cs, onclick = None, firstDiv = None, style_opacity = '''',
      innerHTML = Static\<rparr>"

definition exampleDocument :: "element list" where
  "exampleDocument =
     [el ''home-page'' [''page-section'', ''active''],
      (el ''hive'' [''page-section''])\<lparr>firstDiv := Some 2\<rparr>,
      el '''' [],
      el ''team'' [''page-section''],
      el ''main-header'' [''py-6''],
      el ''nav-container'' nav_pill,
      (el ''canvas-container'' [])\<lparr>style_opacity := ''1''\<rparr>,
      (el '''' [''nav-link'', ''text-[#D4AF37]''])\<lparr>onclick := Some ''switchPage('home')''\<rparr>,
      (el '''' [''nav-link''])\<lparr>onclick := Some ''switchPage('hive')''\<rparr>,
      (el '''' [''nav-link''])\<lparr>onclick := Some ''switchPage('team')''\<rparr>,
      el ''species-content'' [],
      el ''species-loading'' [''hidden'']]"

definition examplePage :: page where
  "examplePage =
     \<lparr>document = exampleDocument, bookState = initialBookState, teamBeeGroup_visible = False,
      teamBeeTimer = None, timers = [], nextHandle = 1\<rparr>"

section \<open>The remote text service client (main.js lines 1-183)\<close>

text \<open>
  A thrown error, by its \<open>message\<close>. The browser is a parameter: the answers to
  \<open>confirm\<close> and \<open>prompt\<close>, what \<open>fetch\<close> does with a URL and a prompt text (it rejects,
  or resolves to a response whose \<open>json()\<close> rejects or resolves), \<open>JSON.parse\<close>, and the
  message of the \<open>TypeError\<close> the engine raises when a property of a value cannot be
  read. The local storage is its one entry \<open>gemini_api_key\<close>, or \<open>None\<close>.
\<close>

datatype js_error = JsError string

fun message :: "js_error \<Rightarrow> string" where
  "message (JsError m) = m"

record response =
  status :: nat
  json :: "js_error + jsval"

record platform =
  confirmAnswer :: bool
  promptAnswer :: "string option"
  fetch :: "string \<Rightarrow> string \<Rightarrow> js_error + response"
  JSON_parse :: "string \<Rightarrow> js_error + jsval"
  typeErrorMessage :: "jsval \<Rightarrow> string \<Rightarrow> string"

definition bindE :: "js_error + 'a \<Rightarrow> ('a \<Rightarrow> js_error + 'b) \<Rightarrow> js_error + 'b" where
  "bindE m f = (case m of Inl e \<Rightarrow> Inl e | Inr x \<Rightarrow> f x)"

text \<open>
  \<open>String.prototype.trim\<close> removes white space and line terminators from both ends:
  U+0009 to U+000D, U+0020, U+00A0, U+1680, U+2000 to U+200A, U+2028, U+2029, U+202F,
  U+205F, U+3000 and U+FEFF, here by their UTF-8 bytes.
\<close>

definition whiteSpace :: "string list" where
  "whiteSpace =
     [[CHR 0x09], [CHR 0x0A], [CHR 0x0B], [CHR 0x0C], [CHR 0x0D], [CHR 0x20],
      [CHR 0xC2, CHR 0xA0], [CHR 0xE1, CHR 0x9A, CHR 0x80],
      [CHR 0xE2, CHR 0x80, CHR 0x80], [CHR 0xE2, CHR 0x80, CHR 0x81],
      [CHR 0xE2, CHR 0x80, CHR 0x82], [CHR 0xE2, CHR 0x80, CHR 0x83],
      [CHR 0xE2, CHR 0x80, CHR 0x84], [CHR 0xE2, CHR 0x80, CHR 0x85],
      [CHR 0xE2, CHR 0x80, CHR 0x86], [CHR 0xE2, CHR 0x80, CHR 0x87],
      [CHR 0xE2, CHR 0x80, CHR 0x88], [CHR 0xE2, CHR 0x80, CHR 0x89],
      [CHR 0xE2, CHR 0x80, CHR 0x8A], [CHR 0xE2, CHR 0x80, CHR 0xA8],
      [CHR 0xE2, CHR 0x80, CHR 0xA9], [CHR 0xE2, CHR 0x80, CHR 0xAF],
      [CHR 0xE2, CHR 0x81, CHR 0x9F], [CHR 0xE3, CHR 0x80, CHR 0x80],
      [CHR 0xEF, CHR 0xBB, CHR 0xBF]]"

lemma whiteSpace_nonempty: "w \<in> set whiteSpace \<Longrightarrow> w \<noteq> []"
  by (auto simp: whiteSpace_def)

function trimStart :: "string \<Rightarrow> string" where
  "trimStart s =
     (case find (\<lambda>w. prefix w s) whiteSpace of
        None \<Rightarrow> s
      | Some w \<Rightarrow> trimStart (drop (length w) s))"
  by pat_completeness auto
termination
proof (relation "measure length")
  show "wf (measure length)" by simp
next
  fix s w assume "find (\<lambda>w. prefix w s) whiteSpace = Some w"
  then have "w \<in> set whiteSpace" and p: "prefix w s"
    by (auto simp: find_Some_iff)
  then have "w \<noteq> []" by (simp add: whiteSpace_nonempty)
  moreover have "length w \<le> length s" using p by (rule prefix_length_le)
  ultimately show "(drop (length w) s, s) \<in> measure length" by (cases w) auto
qed

function trimEnd :: "string \<Rightarrow> string" where
  "trimEnd s =
     (case find (\<lambda>w. suffix w s) whiteSpace of
        None \<Rightarrow> s
      | Some w \<Rightarrow> trimEnd (take (length s - length w) s))"
  by pat_completeness auto
termination
proof (relation "measure length")
  show "wf (measure length)" by simp
next
  fix s w assume "find (\<lambda>w. suffix w s) whiteSpace = Some w"
  then have "w \<in> set whiteSpace" and p: "suffix w s"
    by (auto simp: find_Some_iff)
  then have "w \<noteq> []" by (simp add: whiteSpace_nonempty)
  moreover have "length w \<le> length s" using p by (rule suffix_length_le)
  ultimately show "(take (length s - length w) s, s) \<in> measure length" by (cases w) auto
qed

declare trimStart.simps [simp del] trimEnd.simps [simp del]

definition str_trim :: "string \<Rightarrow> string" where
  "str_trim s = trimEnd (trimStart s)"

text \<open>
  \<open>s.replace(/pat/g, '')\<close> for a pattern that is plain text: every match is removed,
  searching from the left, the search going on after a match.
\<close>

function str_replace :: "string \<Rightarrow> string \<Rightarrow> string" where
  "str_replace pat [] = []"
| "str_replace pat (c # s) =
     (if pat \<noteq> [] \<and> prefix pat (c # s) then str_replace pat (drop (length pat) (c # s))
      else c # str_replace pat s)"
  by pat_completeness auto
termination
  by (relation "measure (\<lambda>(pat, s). length s)") (auto simp: prefix_def)

text \<open>The decimal text of a number, as \<open>${response.status}\<close> gives it.\<close>

fun showNat :: "nat \<Rightarrow> string" where
  "showNat n =
     (if n < 10 then [char_of (48 + n)] else showNat (n div 10) @ [char_of (48 + n mod 10)])"

declare showNat.simps [simp del]

text \<open>Lines 3-36. The alerts show text only and are left out.\<close>

definition getApiKey :: "string option \<Rightarrow> string" where
  "getApiKey st = (case st of None \<Rightarrow> [] | Some k \<Rightarrow> k)"

definition manageApiKey :: "platform \<Rightarrow> string option \<Rightarrow> string option" where
  "manageApiKey pf st =
     (case promptAnswer pf of
        None \<Rightarrow> st
      | Some newKey \<Rightarrow> if str_trim newKey = [] then None else Some (str_trim newKey))"

definition checkApiKey :: "platform \<Rightarrow> string option \<Rightarrow> bool \<times> string option" where
  "checkApiKey pf st =
     (if getApiKey st = [] then
        (if confirmAnswer pf then
           (let st' = manageApiKey pf st in (getApiKey st' \<noteq> [], st'))
         else (False, st))
      else (True, st))"

text \<open>
  Reading a property. \<open>jsGet\<close> is for the names the source reads (\<open>candidates\<close>,
  \<open>content\<close>, \<open>parts\<close>, \<open>text\<close>, \<open>icon\<close>, \<open>name\<close>, \<open>latinName\<close>, \<open>habitat\<close>,
  \<open>description\<close>), none of which a string, a number, a boolean or an array has; in an
  object the last entry of a name counts. \<open>jsFirst\<close> is \<open>v[0]\<close>; of a string it is the
  first character, whose properties the source reads next, and they are all \<open>undefined\<close>.
\<close>

fun jsGet :: "platform \<Rightarrow> string \<Rightarrow> jsval \<Rightarrow> js_error + jsval" where
  "jsGet pf k JUndefined = Inl (JsError (typeErrorMessage pf JUndefined k))"
| "jsGet pf k JNull = Inl (JsError (typeErrorMessage pf JNull k))"
| "jsGet pf k (JObj kvs) = Inr (case map_of (rev kvs) k of None \<Rightarrow> JUndefined | Some v \<Rightarrow> v)"
| "jsGet pf k v = Inr JUndefined"

fun jsFirst :: "platform \<Rightarrow> jsval \<Rightarrow> js_error + jsval" where
  "jsFirst pf JUndefined = Inl (JsError (typeErrorMessage pf JUndefined ''0''))"
| "jsFirst pf JNull = Inl (JsError (typeErrorMessage pf JNull ''0''))"
| "jsFirst pf (JArr xs) = Inr (case xs of [] \<Rightarrow> JUndefined | x # _ \<Rightarrow> x)"
| "jsFirst pf (JObj kvs) = Inr (case map_of (rev kvs) ''0'' of None \<Rightarrow> JUndefined | Some v \<Rightarrow> v)"
| "jsFirst pf (JStr s) = Inr (case s of [] \<Rightarrow> JUndefined | c # _ \<Rightarrow> JStr [c])"
| "jsFirst pf v = Inr JUndefined"

definition apiUrl :: string where
  "apiUrl = ''https://generativelanguage.googleapis.com/v1beta/models/gemini-2.5-flash-lite:generateContent?key=''"

text \<open>The texts of lines 43 and 72, in UTF-8.\<close>

definition notConfiguredText :: string where
  "notConfiguredText =
     [CHR 0xE8, CHR 0xAB, CHR 0x8B, CHR 0xE5, CHR 0x85, CHR 0x88, CHR 0xE8, CHR 0xA8, CHR 0xAD,
      CHR 0xE5, CHR 0xAE, CHR 0x9A] @ '' API Key '' @
     [CHR 0xE6, CHR 0x89, CHR 0x8D, CHR 0xE8, CHR 0x83, CHR 0xBD, CHR 0xE4, CHR 0xBD, CHR 0xBF,
      CHR 0xE7, CHR 0x94, CHR 0xA8, CHR 0xE6, CHR 0xAD, CHR 0xA4, CHR 0xE5, CHR 0x8A, CHR 0x9F,
      CHR 0xE8, CHR 0x83, CHR 0xBD, CHR 0xE3, CHR 0x80, CHR 0x82]"

definition connectionErrorText :: "string \<Rightarrow> string" where
  "connectionErrorText m =
     [CHR 0xE9, CHR 0x80, CHR 0xA3, CHR 0xE7, CHR 0xB7, CHR 0x9A, CHR 0xE7, CHR 0x99, CHR 0xBC,
      CHR 0xE7, CHR 0x94, CHR 0x9F, CHR 0xE9, CHR 0x8C, CHR 0xAF, CHR 0xE8, CHR 0xAA, CHR 0xA4,
      CHR 0xEF, CHR 0xBC, CHR 0x9A] @ m @
     [CHR 0xE3, CHR 0x80, CHR 0x82, CHR 0x0A, CHR 0xE8, CHR 0xAB, CHR 0x8B, CHR 0xE6, CHR 0xAA,
      CHR 0xA2, CHR 0xE6, CHR 0x9F, CHR 0xA5, CHR 0xE6, CHR 0x82, CHR 0xA8, CHR 0xE7, CHR 0x9A,
      CHR 0x84] @ '' API Key '' @
     [CHR 0xE6, CHR 0x98, CHR 0xAF, CHR 0xE5, CHR 0x90, CHR 0xA6, CHR 0xE6, CHR 0xAD, CHR 0xA3,
      CHR 0xE7, CHR 0xA2, CHR 0xBA, CHR 0xE3, CHR 0x80, CHR 0x82]"

text \<open>
  The body of the \<open>try\<close> of \<open>callGemini\<close> (lines 56-69): \<open>Inl\<close> is an exception raised
  inside it. \<open>response.ok\<close> is a status from 200 to 299.
\<close>

definition callGemini_try :: "platform \<Rightarrow> string \<Rightarrow> string \<Rightarrow> js_error + jsval" where
  "callGemini_try pf url prompt =
     bindE (fetch pf url prompt) (\<lambda>response.
       if \<not> (200 \<le> status response \<and> status response \<le> 299) then
         bindE (json response) (\<lambda>errData.
           Inl (JsError (''API Error: '' @ showNat (status response))))
       else
         bindE (json response) (\<lambda>data.
         bindE (jsGet pf ''candidates'' data) (\<lambda>candidates.
         bindE (jsFirst pf candidates) (\<lambda>candidate.
         bindE (jsGet pf ''content'' candidate) (\<lambda>content.
         bindE (jsGet pf ''parts'' content) (\<lambda>parts.
         bindE (jsFirst pf parts) (\<lambda>part.
         jsGet pf ''text'' part)))))))"

text \<open>
  \<open>callGemini\<close> (lines 38-74): the value its promise resolves to (\<open>Inl\<close> would be a
  rejection), and the storage after it.
\<close>

definition callGemini :: "platform \<Rightarrow> string option \<Rightarrow> string \<Rightarrow> (js_error + jsval) \<times> string option" where
  "callGemini pf st prompt =
     (let (hasKey, st1) = (if getApiKey st = [] then checkApiKey pf st else (True, st)) in
      if \<not> hasKey then (Inr (JStr notConfiguredText), st1)
      else
        (case callGemini_try pf (apiUrl @ getApiKey st1) prompt of
           Inr v \<Rightarrow> (Inr v, st1)
         | Inl error \<Rightarrow> (Inr (JStr (connectionErrorText (message error))), st1)))"

text \<open>Line 153.\<close>

definition stripFences :: "string \<Rightarrow> string" where
  "stripFences jsonStr = str_trim (str_replace ''```'' (str_replace ''```json'' jsonStr))"

text \<open>The template of lines 158-175, which reads five properties of the parsed value.\<close>

definition speciesCard :: "platform \<Rightarrow> string \<Rightarrow> jsval \<Rightarrow> js_error + html" where
  "speciesCard pf randomCategory data =
     bindE (jsGet pf ''icon'' data) (\<lambda>icon.
     bindE (jsGet pf ''name'' data) (\<lambda>name.
     bindE (jsGet pf ''latinName'' data) (\<lambda>latinName.
     bindE (jsGet pf ''habitat'' data) (\<lambda>habitat.
     bindE (jsGet pf ''description'' data) (\<lambda>description.
       Inr (SpeciesCard icon name latinName
              (takeWhile (\<lambda>c. c \<noteq> CHR ''('') randomCategory) habitat description))))))"

definition setInnerHTML :: "platform \<Rightarrow> nat option \<Rightarrow> html \<Rightarrow> element list \<Rightarrow> js_error + element list" where
  "setInnerHTML pf target h d =
     (case target of
        None \<Rightarrow> Inl (JsError (typeErrorMessage pf JNull ''innerHTML''))
      | Some i \<Rightarrow> Inr (update_at i (\<lambda>e. e\<lparr>innerHTML := h\<rparr>) d))"

text \<open>
  Lines 155-180: the \<open>try\<close>, and the \<open>catch\<close> that writes the error note. An exception
  raised in the \<open>catch\<close> leaves the function.
\<close>

definition species_render :: "platform \<Rightarrow> string \<Rightarrow> string \<Rightarrow> nat option \<Rightarrow> element list \<Rightarrow> js_error + element list" where
  "species_render pf randomCategory jsonStr contentEl d =
     (case bindE (JSON_parse pf jsonStr) (\<lambda>data.
           bindE (speciesCard pf randomCategory data) (\<lambda>card.
           setInnerHTML pf contentEl card d)) of
        Inr d' \<Rightarrow> Inr d'
      | Inl e \<Rightarrow> setInnerHTML pf contentEl (ParseErrorNote (message e)) d)"

text \<open>
  \<open>generateSpeciesProfile\<close> (lines 111-183). The category drawn at random and the prompt
  built from it (lines 124-148) are parameters; the prompt's text plays no part in what
  follows. Only a string has \<open>replace\<close>: for any other value line 153 raises.
\<close>

definition generateSpeciesProfile ::
  "platform \<Rightarrow> string \<Rightarrow> string \<Rightarrow> element list \<times> string option \<Rightarrow>
     js_error + element list \<times> string option" where
  "generateSpeciesProfile pf randomCategory systemPrompt ds =
     (let (d, st) = ds;
          contentEl = getElementById d ''species-content'';
          loadingEl = getElementById d ''species-loading'';
          (hasKey, st1) = (if getApiKey st = [] then checkApiKey pf st else (True, st))
      in if \<not> hasKey then Inr (d, st1)
         else
           (case loadingEl of
              None \<Rightarrow> Inl (JsError (typeErrorMessage pf JNull ''classList''))
            | Some loading \<Rightarrow>
                (let d1 = update_at loading (classList_remove [''hidden'']) d;
                     (r, st2) = callGemini pf st1 systemPrompt
                 in case r of
                      Inl e \<Rightarrow> Inl e
                    | Inr (JStr jsonStr) \<Rightarrow>
                        bindE (species_render pf randomCategory (stripFences jsonStr) contentEl d1)
                          (\<lambda>d2. Inr (update_at loading (classList_add [''hidden'']) d2, st2))
                    | Inr v \<Rightarrow> Inl (JsError (typeErrorMessage pf v ''replace'')))))"


section \<open>Properties of the transition driver\<close>

lemma frames_target: "bs_target (frames n b) = bs_target b"
  by (induction n arbitrary: b) (simp_all add: animate_bookState_def)

lemma animate_parts:
  "fst (animate b) = animate_bookState b \<and>
   snd (animate b) = animate_derived (bs_value (animate_bookState b))"
  by (simp add: animate_def Let_def)

text \<open>
  C1. For a value in \<open>[0, 1]\<close> the frame derives: above \<open>0.6\<close> the content scale
  \<open>(value - 0.6) / 0.4\<close>, hinge angle \<open>0\<close> and book scale \<open>1.4\<close>; above \<open>0.2\<close> and
  up to \<open>0.6\<close> the content scale \<open>0\<close>, hinge angle \<open>(1 - (value - 0.2) / 0.4) * 1.57\<close>
  and book scale \<open>1.4\<close>; up to \<open>0.2\<close> the content scale \<open>0\<close>, hinge angle \<open>1.57\<close> and
  book scale \<open>(value / 0.2) * 1.4\<close>.
\<close>

theorem animate_derived_phases:
  "(0.6 < v \<and> v \<le> 1 \<longrightarrow>
      animate_derived v =
        \<lparr>contentScale = (v - 0.6) / 0.4, bookRotation = 0, currentBookScale = 1.4\<rparr>) \<and>
   (0.2 < v \<and> v \<le> 0.6 \<longrightarrow>
      animate_derived v =
        \<lparr>contentScale = 0, bookRotation = (1 - (v - 0.2) / 0.4) * 1.57,
         currentBookScale = 1.4\<rparr>) \<and>
   (0 \<le> v \<and> v \<le> 0.2 \<longrightarrow>
      animate_derived v =
        \<lparr>contentScale = 0, bookRotation = 1.57, currentBookScale = (v / 0.2) * 1.4\<rparr>)"
  by (simp add: animate_derived_def Let_def)

theorem animate_derived_phases_witness:
  "animate_derived 0.8 = \<lparr>contentScale = 0.5, bookRotation = 0, currentBookScale = 1.4\<rparr> \<and>
   animate_derived 0.4 = \<lparr>contentScale = 0, bookRotation = 0.785, currentBookScale = 1.4\<rparr> \<and>
   animate_derived 0.1 = \<lparr>contentScale = 0, bookRotation = 1.57, currentBookScale = 0.7\<rparr>"
  using animate_derived_phases [of "0.8"] animate_derived_phases [of "0.4"]
    animate_derived_phases [of "0.1"]
  by simp

text \<open>
  C2. A frame replaces the value by \<open>value + (target - value) * rate\<close>, with rate
  \<open>0.10\<close> when the target is below the value and \<open>0.05\<close> otherwise, and leaves the
  target as it was.
\<close>

theorem animate_update_rule:
  "bs_value (fst (animate b)) =
     bs_value b + (bs_target b - bs_value b) * (if bs_target b < bs_value b then 0.10 else 0.05) \<and>
   bs_target (fst (animate b)) = bs_target b"
  by (simp add: animate_def Let_def animate_bookState_def lerpSpeed_def)

text \<open>
  Each derived parameter has a closed form in \<open>min\<close> and \<open>max\<close>, from which its
  continuity follows.
\<close>

lemma contentScale_closed: "contentScale (animate_derived v) = max 0 ((v - 0.6) / 0.4)"
  by (simp add: animate_derived_def Let_def max_def)

lemma bookRotation_closed:
  "bookRotation (animate_derived v) = min 1.57 (max 0 ((1 - (v - 0.2) / 0.4) * 1.57))"
  by (simp add: animate_derived_def Let_def max_def min_def)

lemma currentBookScale_closed:
  "currentBookScale (animate_derived v) = min 1.4 ((v / 0.2) * 1.4)"
  by (simp add: animate_derived_def Let_def max_def min_def)

text \<open>
  C3. The content scale, the hinge angle and the book scale are continuous functions of
  the value on \<open>[0, 1]\<close>; at the phase boundaries \<open>0.6\<close> and \<open>0.2\<close> the frame takes the
  values both neighbouring formulas give there.
\<close>

theorem animate_derived_continuous:
  "continuous_on {0..1} (\<lambda>v. contentScale (animate_derived v)) \<and>
   continuous_on {0..1} (\<lambda>v. bookRotation (animate_derived v)) \<and>
   continuous_on {0..1} (\<lambda>v. currentBookScale (animate_derived v)) \<and>
   animate_derived 0.6 = \<lparr>contentScale = 0, bookRotation = 0, currentBookScale = 1.4\<rparr> \<and>
   animate_derived 0.2 = \<lparr>contentScale = 0, bookRotation = 1.57, currentBookScale = 1.4\<rparr>"
proof -
  have "continuous_on {0..1} (\<lambda>v. contentScale (animate_derived v))"
    unfolding contentScale_closed by (intro continuous_intros) simp_all
  moreover have "continuous_on {0..1} (\<lambda>v. bookRotation (animate_derived v))"
    unfolding bookRotation_closed by (intro continuous_intros) simp_all
  moreover have "continuous_on {0..1} (\<lambda>v. currentBookScale (animate_derived v))"
    unfolding currentBookScale_closed by (intro continuous_intros) simp_all
  moreover have
    "animate_derived 0.6 = \<lparr>contentScale = 0, bookRotation = 0, currentBookScale = 1.4\<rparr>"
    by (simp add: animate_derived_def Let_def)
  moreover have
    "animate_derived 0.2 = \<lparr>contentScale = 0, bookRotation = 1.57, currentBookScale = 1.4\<rparr>"
    by (simp add: animate_derived_def Let_def)
  ultimately show ?thesis by blast
qed

subsection \<open>Convergence\<close>

text \<open>Closing multiplies the value by \<open>0.9\<close> a frame; a value of \<open>0\<close> stays there.\<close>

lemma frames_closing:
  "bs_target b = 0 \<Longrightarrow> 0 \<le> bs_value b \<Longrightarrow> bs_value (frames n b) = bs_value b * 0.9 ^ n"
proof (induction n arbitrary: b)
  case 0
  then show ?case by simp
next
  case (Suc n)
  let ?b = "animate_bookState b"
  have t: "bs_target ?b = 0" using Suc.prems by (simp add: animate_bookState_def)
  have v: "bs_value ?b = bs_value b * 0.9"
    using Suc.prems by (simp add: animate_bookState_def lerpSpeed_def)
  have "0 \<le> bs_value ?b" using v Suc.prems by simp
  from Suc.IH [OF t this] v show ?case by simp
qed

text \<open>Opening multiplies the distance to \<open>1\<close> by \<open>0.95\<close> a frame.\<close>

lemma frames_opening:
  "bs_target b = 1 \<Longrightarrow> bs_value b \<le> 1 \<Longrightarrow>
     1 - bs_value (frames n b) = (1 - bs_value b) * 0.95 ^ n"
proof (induction n arbitrary: b)
  case 0
  then show ?case by simp
next
  case (Suc n)
  let ?b = "animate_bookState b"
  have t: "bs_target ?b = 1" using Suc.prems by (simp add: animate_bookState_def)
  have v: "1 - bs_value ?b = (1 - bs_value b) * 0.95"
    using Suc.prems by (simp add: animate_bookState_def lerpSpeed_def field_simps)
  have "0 \<le> (1 - bs_value b) * 0.95" using Suc.prems by simp
  then have "bs_value ?b \<le> 1" using v by linarith
  from Suc.IH [OF t this] v show ?case by simp
qed

lemma pow95_270: "(0.95::real) ^ 270 < 1 / 10 ^ 6"
  by (simp add: power_divide)

lemma pow95_200: "\<not> (0.95::real) ^ 200 < 1 / 10 ^ 6"
  by (simp add: power_divide)

lemma pow9_200: "(0.9::real) ^ 200 < 1 / 10 ^ 6"
  by (simp add: power_divide)

text \<open>
  C4, as stated, fails: opening from the value \<open>0\<close>, the distance to the target after 200
  frames is \<open>0.95 ^ 200\<close>, about \<open>3.5e-5\<close>.
\<close>

theorem frames_200_counterexample:
  "\<not> \<bar>bs_value (frames 200 \<lparr>bs_value = 0, bs_target = 1\<rparr>) - 1\<bar> < 1 / 10 ^ 6"
proof -
  have "1 - bs_value (frames 200 \<lparr>bs_value = 0, bs_target = 1\<rparr>) = 0.95 ^ 200"
    using frames_opening [of "\<lparr>bs_value = 0, bs_target = 1\<rparr>" 200] by simp
  then show ?thesis using pow95_200 by (simp add: abs_if)
qed

text \<open>
  C4, amended. From a value in \<open>[0, 1]\<close>, at least 200 frames bring the value within
  \<open>1e-6\<close> of the target \<open>0\<close>, and at least 270 frames bring it within \<open>1e-6\<close> of the
  target \<open>1\<close>.
\<close>

theorem frames_converge:
  assumes "0 \<le> bs_value b" and "bs_value b \<le> 1"
  shows "(bs_target b = 0 \<and> 200 \<le> n \<longrightarrow>
            \<bar>bs_value (frames n b) - bs_target b\<bar> < 1 / 10 ^ 6) \<and>
         (bs_target b = 1 \<and> 270 \<le> n \<longrightarrow>
            \<bar>bs_value (frames n b) - bs_target b\<bar> < 1 / 10 ^ 6)"
proof (intro conjI impI)
  assume h: "bs_target b = 0 \<and> 200 \<le> n"
  have e: "bs_value (frames n b) = bs_value b * 0.9 ^ n"
    using h assms by (simp add: frames_closing)
  have "(0.9::real) ^ n \<le> 0.9 ^ 200"
    using h by (intro power_decreasing) simp_all
  then have "bs_value b * 0.9 ^ n \<le> 1 * 0.9 ^ 200"
    using assms by (intro mult_mono) simp_all
  moreover have "0 \<le> bs_value b * 0.9 ^ n" using assms by simp
  ultimately have "\<bar>bs_value b * 0.9 ^ n\<bar> < 1 / 10 ^ 6"
    using pow9_200 by linarith
  then show "\<bar>bs_value (frames n b) - bs_target b\<bar> < 1 / 10 ^ 6"
    using e h by simp
next
  assume h: "bs_target b = 1 \<and> 270 \<le> n"
  have e: "1 - bs_value (frames n b) = (1 - bs_value b) * 0.95 ^ n"
    using h assms by (simp add: frames_opening)
  have "(0.95::real) ^ n \<le> 0.95 ^ 270"
    using h by (intro power_decreasing) simp_all
  then have "(1 - bs_value b) * 0.95 ^ n \<le> 1 * 0.95 ^ 270"
    using assms by (intro mult_mono) simp_all
  moreover have "0 \<le> (1 - bs_value b) * 0.95 ^ n" using assms by simp
  ultimately have "\<bar>1 - bs_value (frames n b)\<bar> < 1 / 10 ^ 6"
    using pow95_270 e by linarith
  then show "\<bar>bs_value (frames n b) - bs_target b\<bar> < 1 / 10 ^ 6"
    using h by (simp add: abs_minus_commute)
qed

theorem frames_converge_witness:
  "\<bar>bs_value (frames 200 \<lparr>bs_value = 1, bs_target = 0\<rparr>) - 0\<bar> < 1 / 10 ^ 6 \<and>
   \<bar>bs_value (frames 270 \<lparr>bs_value = 0, bs_target = 1\<rparr>) - 1\<bar> < 1 / 10 ^ 6"
  using frames_converge [of "\<lparr>bs_value = 1, bs_target = 0\<rparr>" 200]
    frames_converge [of "\<lparr>bs_value = 0, bs_target = 1\<rparr>" 270]
  by simp

subsection \<open>Closing is faster than opening\<close>

lemma framesUntil_mono:
  "framesUntil P f b = Some k \<Longrightarrow> f \<le> f' \<Longrightarrow> framesUntil P f' b = Some k"
proof (induction f arbitrary: b k f')
  case 0
  then show ?case by (cases f') (auto split: if_splits)
next
  case (Suc f)
  then obtain g where g: "f' = Suc g" "f \<le> g" by (cases f') auto
  show ?case
  proof (cases "P (bs_value b)")
    case True
    then show ?thesis using Suc.prems g by simp
  next
    case False
    then obtain j where j: "framesUntil P f (animate_bookState b) = Some j" "k = Suc j"
      using Suc.prems by auto
    from Suc.IH [OF j(1) g(2)] show ?thesis using False g j by simp
  qed
qed

text \<open>What \<open>framesUntil\<close> returns is the first frame count at which the value satisfies \<open>P\<close>.\<close>

lemma framesUntil_first:
  "framesUntil P f b = Some k \<Longrightarrow>
     k \<le> f \<and> P (bs_value (frames k b)) \<and> (\<forall>j<k. \<not> P (bs_value (frames j b)))"
proof (induction f arbitrary: b k)
  case 0
  then show ?case by (auto split: if_splits)
next
  case (Suc f)
  show ?case
  proof (cases "P (bs_value b)")
    case True
    then show ?thesis using Suc.prems by simp
  next
    case False
    then obtain j where j: "framesUntil P f (animate_bookState b) = Some j" "k = Suc j"
      using Suc.prems by auto
    from Suc.IH [OF j(1)] show ?thesis using False j
      by (auto simp: less_Suc_eq_0_disj)
  qed
qed

lemma closing_count:
  "framesUntil (\<lambda>v. v < 0.5) 14 \<lparr>bs_value = 1, bs_target = 0\<rparr> = Some 7"
  by (simp add: eval_nat_numeral animate_bookState_def lerpSpeed_def)

lemma opening_count:
  "framesUntil (\<lambda>v. 0.5 < v) 14 \<lparr>bs_value = 0, bs_target = 1\<rparr> = Some 14"
  by (simp add: eval_nat_numeral animate_bookState_def lerpSpeed_def)

text \<open>
  C5. Closing from the value \<open>1\<close> first reaches a value below \<open>0.5\<close> after 7 frames;
  opening from the value \<open>0\<close> first reaches a value above \<open>0.5\<close> after 14 frames: closing
  takes strictly fewer frames.
\<close>

theorem closing_faster_than_opening:
  assumes "14 \<le> fuel"
  shows "\<exists>c k. framesUntil (\<lambda>v. v < 0.5) fuel \<lparr>bs_value = 1, bs_target = 0\<rparr> = Some c \<and>
               framesUntil (\<lambda>v. 0.5 < v) fuel \<lparr>bs_value = 0, bs_target = 1\<rparr> = Some k \<and>
               c = 7 \<and> k = 14 \<and> c < k"
  using framesUntil_mono [OF closing_count assms] framesUntil_mono [OF opening_count assms]
  by simp

theorem closing_faster_than_opening_witness:
  "\<exists>c k. framesUntil (\<lambda>v. v < 0.5) 14 \<lparr>bs_value = 1, bs_target = 0\<rparr> = Some c \<and>
          framesUntil (\<lambda>v. 0.5 < v) 14 \<lparr>bs_value = 0, bs_target = 1\<rparr> = Some k \<and>
          c = 7 \<and> k = 14 \<and> c < k"
  using closing_faster_than_opening [of 14] by simp

section \<open>Properties of navigation\<close>

lemma findId_Some: "findId i d = Some k \<Longrightarrow> k < length d \<and> elemId (d ! k) = i"
  by (induction d arbitrary: k) (auto split: if_splits)

lemma findId_ids: "map elemId d' = map elemId d \<Longrightarrow> findId i d' = findId i d"
proof -
  assume m: "map elemId d' = map elemId d"
  then have "length d' = length d" by (rule map_eq_imp_length_eq)
  then show ?thesis using m by (induction d' d rule: list_induct2) simp_all
qed

lemma getElementById_Some:
  "getElementById d i = Some k \<Longrightarrow> k < length d \<and> elemId (d ! k) = i"
  by (auto simp: getElementById_def findId_Some split: if_splits)

lemma getElementById_ids:
  "map elemId d' = map elemId d \<Longrightarrow> getElementById d' i = getElementById d i"
  using findId_ids [of d' d i] by (simp add: getElementById_def)

lemma agree_refl: "agree cs d d"
  by (simp add: agree_def)

lemma agree_trans: "agree cs d d' \<Longrightarrow> agree cs d' d'' \<Longrightarrow> agree cs d d''"
  by (simp add: agree_def)

lemma agree_mono: "agree cs d d' \<Longrightarrow> cs' \<subseteq> cs \<Longrightarrow> agree cs' d d'"
  by (auto simp: agree_def)

lemma agree_ids: "agree cs d d' \<Longrightarrow> map elemId d' = map elemId d"
  by (auto simp: agree_def intro: nth_equalityI)

lemma agree_getElementById: "agree cs d d' \<Longrightarrow> getElementById d' i = getElementById d i"
  by (rule getElementById_ids) (rule agree_ids)

lemma contains_add: "contains c (classList_add cs e) = (c \<in> set cs \<or> contains c e)"
proof -
  have "set (fold (\<lambda>c l. if c \<in> set l then l else l @ [c]) cs l) = set cs \<union> set l" for l
    by (induction cs arbitrary: l) auto
  then show ?thesis by (auto simp: contains_def classList_add_def)
qed

lemma contains_remove: "contains c (classList_remove cs e) = (c \<notin> set cs \<and> contains c e)"
  by (auto simp: contains_def classList_remove_def)

lemma keeps_add: "cs \<inter> set added = {} \<Longrightarrow> keeps cs (classList_add added)"
  by (auto simp: keeps_def contains_add) (simp add: classList_add_def)+

lemma keeps_remove: "cs \<inter> set removed = {} \<Longrightarrow> keeps cs (classList_remove removed)"
  by (auto simp: keeps_def contains_remove) (simp add: classList_remove_def)+

lemma keeps_opacity: "keeps cs (\<lambda>e. e\<lparr>style_opacity := v\<rparr>)"
  by (simp add: keeps_def contains_def)

lemma keeps_comp: "keeps cs f \<Longrightarrow> keeps cs g \<Longrightarrow> keeps cs (\<lambda>e. f (g e))"
  by (simp add: keeps_def)

lemma agree_update_at: "keeps cs f \<Longrightarrow> agree cs d (update_at i f d)"
  by (auto simp: agree_def update_at_def keeps_def nth_list_update)

lemma agree_forEach: "keeps cs f \<Longrightarrow> agree cs d (forEach_class k f d)"
  by (auto simp: agree_def forEach_class_def keeps_def)


lemma update_at_length [simp]: "length (update_at i f d) = length d"
  by (simp add: update_at_def)

lemma update_at_nth:
  "j < length d \<Longrightarrow> update_at i f d ! j = (if j = i then f (d ! j) else d ! j)"
  by (simp add: update_at_def)

lemma forEach_class_length [simp]: "length (forEach_class k f d) = length d"
  by (simp add: forEach_class_def)

lemma forEach_class_nth:
  "j < length d \<Longrightarrow> forEach_class k f d ! j = (if contains k (d ! j) then f (d ! j) else d ! j)"
  by (simp add: forEach_class_def)

lemma KS_KA: "KS \<subseteq> KA"
  by (simp add: KS_def KA_def)

lemma agree_nav_missing:
  assumes "agree KS d d'"
  shows "list_ex (\<lambda>e. contains ''nav-link'' e \<and> onclick e = None) d' =
         list_ex (\<lambda>e. contains ''nav-link'' e \<and> onclick e = None) d"
proof -
  have l: "length d' = length d" using assms by (simp add: agree_def)
  have e: "j < length d \<Longrightarrow>
      (contains ''nav-link'' (d' ! j) \<and> onclick (d' ! j) = None) =
      (contains ''nav-link'' (d ! j) \<and> onclick (d ! j) = None)" for j
    using assms by (simp add: agree_def KS_def)
  show ?thesis
    unfolding list_ex_iff
  proof
    assume "\<exists>x\<in>set d'. contains ''nav-link'' x \<and> onclick x = None"
    then obtain j where "j < length d'"
        and "contains ''nav-link'' (d' ! j) \<and> onclick (d' ! j) = None"
      by (auto simp: in_set_conv_nth)
    then have "j < length d" and "contains ''nav-link'' (d ! j) \<and> onclick (d ! j) = None"
      using l e by simp_all
    then show "\<exists>x\<in>set d. contains ''nav-link'' x \<and> onclick x = None"
      using nth_mem by blast
  next
    assume "\<exists>x\<in>set d. contains ''nav-link'' x \<and> onclick x = None"
    then obtain j where "j < length d"
        and "contains ''nav-link'' (d ! j) \<and> onclick (d ! j) = None"
      by (auto simp: in_set_conv_nth)
    then have "j < length d'" and "contains ''nav-link'' (d' ! j) \<and> onclick (d' ! j) = None"
      using l e by simp_all
    then show "\<exists>x\<in>set d'. contains ''nav-link'' x \<and> onclick x = None"
      using nth_mem by blast
  qed
qed

lemma wf_agree:
  assumes "agree KS d d'" and "wf_document d"
  shows "wf_document d'"
proof -
  have g: "getElementById d' i = getElementById d i" for i
    using assms(1) by (rule agree_getElementById)
  obtain home where h: "getElementById d ''home-page'' = Some home"
      and hs: "contains ''page-section'' (d ! home)"
    using assms(2) by (auto simp: wf_document_def split: option.splits)
  have "home < length d" using h by (simp add: getElementById_Some)
  then have "contains ''page-section'' (d' ! home)"
    using assms(1) hs by (simp add: agree_def KS_def)
  then show ?thesis
    using assms(2) h g agree_nav_missing [OF assms(1)] by (simp add: wf_document_def)
qed


lemma KA_header_solid: "KA \<inter> set header_solid = {}"
  by (simp add: KA_def header_solid_def)

lemma KA_nav_pill: "KA \<inter> set nav_pill = {}"
  by (simp add: KA_def nav_pill_def)

lemma KA_py6: "KA \<inter> set [''py-6''] = {}"
  by (simp add: KA_def)

lemma KA_highlight: "KA \<inter> set [''text-[#D4AF37]''] = {}"
  by (simp add: KA_def)

lemma KS_active: "KS \<inter> set [''active''] = {}"
  by (simp add: KS_def)

lemma KS_enter: "KS \<inter> set [''page-transition-enter''] = {}"
  by (simp add: KS_def)

lemma enterHome_ok:
  assumes "wf_document (document s)"
  shows "\<exists>s'. enterHome s = Inr s' \<and> agree KA (document s) (document s') \<and>
           teamBeeGroup_visible s' = teamBeeGroup_visible s \<and>
           teamBeeTimer s' = teamBeeTimer s \<and> timers s' = timers s \<and>
           nextHandle s' = nextHandle s"
proof -
  let ?d = "document s"
  obtain canvas header navContainer where
    c: "getElementById ?d ''canvas-container'' = Some canvas" and
    h: "getElementById ?d ''main-header'' = Some header" and
    n: "getElementById ?d ''nav-container'' = Some navContainer"
    using assms by (auto simp: wf_document_def)
  define d1 where "d1 = update_at canvas (\<lambda>e. e\<lparr>style_opacity := ''1''\<rparr>) ?d"
  define d2 where "d2 = update_at header (classList_remove header_solid) d1"
  define d3 where "d3 = update_at header (classList_add [''py-6'']) d2"
  define d4 where "d4 = update_at navContainer (classList_add nav_pill) d3"
  have a1: "agree KA ?d d1"
    unfolding d1_def by (intro agree_update_at keeps_opacity)
  have a2: "agree KA d1 d2"
    unfolding d2_def by (intro agree_update_at keeps_remove KA_header_solid)
  have a3: "agree KA d2 d3"
    unfolding d3_def by (intro agree_update_at keeps_add KA_py6)
  have a4: "agree KA d3 d4"
    unfolding d4_def by (intro agree_update_at keeps_add KA_nav_pill)
  have a13: "agree KA ?d d3" using a1 a2 a3 by (blast intro: agree_trans)
  have h1: "getElementById d1 ''main-header'' = Some header"
    using agree_getElementById [OF a1] h by simp
  have n3: "getElementById d3 ''nav-container'' = Some navContainer"
    using agree_getElementById [OF a13] n by simp
  have "enterHome s = Inr (s\<lparr>bookState := (bookState s)\<lparr>bs_target := 1.0\<rparr>, document := d4\<rparr>)"
    using c h1 n3 by (simp add: enterHome_def Let_def d1_def d2_def d3_def d4_def)
  moreover have "agree KA ?d d4" using a13 a4 by (rule agree_trans)
  ultimately show ?thesis by simp
qed

lemma nonHomeChrome_ok:
  assumes "wf_document (document s)"
  shows "\<exists>s'. nonHomeChrome pageId s = Inr s' \<and> agree KA (document s) (document s') \<and>
           bookState s' = bookState s \<and>
           teamBeeGroup_visible s' = teamBeeGroup_visible s \<and>
           teamBeeTimer s' = teamBeeTimer s \<and>
           timers s' = timers s @
             [\<lparr>t_handle = nextHandle s, t_delay = 800,
               t_callback = CanvasOpacity (getElementById (document s) ''canvas-container'') pageId\<rparr>] \<and>
           nextHandle s' = Suc (nextHandle s)"
proof -
  let ?d = "document s"
  obtain header navContainer where
    h: "getElementById ?d ''main-header'' = Some header" and
    n: "getElementById ?d ''nav-container'' = Some navContainer"
    using assms by (auto simp: wf_document_def)
  define d1 where "d1 = update_at header (classList_add header_solid) ?d"
  define d2 where "d2 = update_at header (classList_remove [''py-6'']) d1"
  define d3 where "d3 = update_at navContainer (classList_remove nav_pill) d2"
  have a1: "agree KA ?d d1"
    unfolding d1_def by (intro agree_update_at keeps_add KA_header_solid)
  have a2: "agree KA d1 d2"
    unfolding d2_def by (intro agree_update_at keeps_remove KA_py6)
  have a3: "agree KA d2 d3"
    unfolding d3_def by (intro agree_update_at keeps_remove KA_nav_pill)
  have a12: "agree KA ?d d2" using a1 a2 by (rule agree_trans)
  have n2: "getElementById d2 ''nav-container'' = Some navContainer"
    using agree_getElementById [OF a12] n by simp
  have "nonHomeChrome pageId s =
      Inr ((snd (setTimeout (CanvasOpacity (getElementById ?d ''canvas-container'') pageId) 800 s))
             \<lparr>document := d3\<rparr>)"
    using h n2 by (simp add: nonHomeChrome_def Let_def setTimeout_def d1_def d2_def d3_def)
  moreover have "agree KA ?d d3" using a12 a3 by (rule agree_trans)
  ultimately show ?thesis by (simp add: setTimeout_def)
qed

lemma updateNavLinks_ok:
  assumes "\<not> list_ex (\<lambda>e. contains ''nav-link'' e \<and> onclick e = None) d"
  shows "\<exists>d'. updateNavLinks pageId d = Inr d' \<and> agree KA d d'"
proof -
  define d1 where "d1 = forEach_class ''nav-link'' (classList_remove [''text-[#D4AF37]'']) d"
  define f where "f = (\<lambda>link. case onclick link of
                             None \<Rightarrow> link
                           | Some a \<Rightarrow> if str_includes a pageId
                                       then classList_add [''text-[#D4AF37]''] link else link)"
  have a1: "agree KA d d1"
    unfolding d1_def by (intro agree_forEach keeps_remove KA_highlight)
  have "keeps KA f"
    using keeps_add [OF KA_highlight] by (auto simp: keeps_def f_def split: option.splits)
  then have a2: "agree KA d1 (forEach_class ''nav-link'' f d1)"
    by (rule agree_forEach)
  have "\<not> list_ex (\<lambda>e. contains ''nav-link'' e \<and> onclick e = None) d1"
    using agree_nav_missing [OF agree_mono [OF a1 KS_KA]] assms by simp
  then have "updateNavLinks pageId d = Inr (forEach_class ''nav-link'' f d1)"
    by (simp add: updateNavLinks_def Let_def d1_def f_def)
  moreover have "agree KA d (forEach_class ''nav-link'' f d1)"
    using a1 a2 by (rule agree_trans)
  ultimately show ?thesis by simp
qed

lemma swapSections_agree: "agree KS d (swapSections pageId d)"
proof -
  define g where "g = (\<lambda>e. classList_remove [''page-transition-enter''] (classList_remove [''active''] e))"
  define d1 where "d1 = forEach_class ''page-section'' g d"
  have "keeps KS g"
    unfolding g_def using keeps_remove [OF KS_active] keeps_remove [OF KS_enter]
    by (simp add: keeps_def)
  then have a1: "agree KS d d1" unfolding d1_def by (rule agree_forEach)
  have a2: "agree KS d1 (update_at t (classList_add [''active'']) d1)" for t
    by (intro agree_update_at keeps_add KS_active)
  have a3: "agree KS d2 (update_at k (classList_add [''page-transition-enter'']) d2)" for k d2
    by (intro agree_update_at keeps_add KS_enter)
  show ?thesis
    using a1 agree_trans [OF a1 a2] agree_trans [OF agree_trans [OF a1 a2] a3]
    by (simp add: swapSections_def Let_def d1_def g_def split: option.splits)
qed

lemma swapSections_active:
  assumes "j < length d" and "contains ''page-section'' (d ! j)"
  shows "contains ''active'' (swapSections pageId d ! j) =
         (getElementById d (if pageId = ''home'' then ''home-page'' else pageId) = Some j)"
proof -
  define g where "g = (\<lambda>e. classList_remove [''page-transition-enter''] (classList_remove [''active''] e))"
  define d1 where "d1 = forEach_class ''page-section'' g d"
  let ?tid = "if pageId = ''home'' then ''home-page'' else pageId"
  have "keeps KS g"
    unfolding g_def using keeps_remove [OF KS_active] keeps_remove [OF KS_enter]
    by (simp add: keeps_def)
  then have a1: "agree KS d d1" unfolding d1_def by (rule agree_forEach)
  have t1: "getElementById d1 ?tid = getElementById d ?tid"
    using a1 by (rule agree_getElementById)
  have l1: "length d1 = length d" by (simp add: d1_def)
  have n1: "\<not> contains ''active'' (d1 ! j)"
    using assms by (simp add: d1_def forEach_class_nth g_def contains_remove)
  show ?thesis
  proof (cases "getElementById d ?tid")
    case None
    then have "swapSections pageId d = d1"
      using t1 by (simp add: swapSections_def Let_def d1_def g_def)
    then show ?thesis using None n1 by simp
  next
    case (Some t)
    define d2 where "d2 = update_at t (classList_add [''active'']) d1"
    have tl: "t < length d" using Some by (simp add: getElementById_Some)
    have c2: "contains ''active'' (d2 ! j) = (j = t)"
      using assms(1) l1 n1 by (simp add: d2_def update_at_nth contains_add)
    have c3: "contains ''active'' (update_at k (classList_add [''page-transition-enter'']) d2 ! j)
          = (j = t)" for k
    proof -
      have "j < length d2" using assms(1) l1 by (simp add: d2_def)
      then show ?thesis using c2 by (auto simp: update_at_nth contains_add)
    qed
    have "swapSections pageId d = d2 \<or>
          (\<exists>k. swapSections pageId d = update_at k (classList_add [''page-transition-enter'']) d2)"
      using t1 Some by (auto simp: swapSections_def Let_def d1_def g_def d2_def split: option.splits)
    then show ?thesis using c2 c3 Some by auto
  qed
qed



lemma teamBeesLogic_document:
  "document (teamBeesLogic pageId s) = document s \<and> bookState (teamBeesLogic pageId s) = bookState s"
  by (simp add: teamBeesLogic_def Let_def setTimeout_def clearTimeout_def split: option.splits)

lemma teamBeesLogic_leave:
  "pageId \<noteq> ''team'' \<Longrightarrow> \<not> teamBeeGroup_visible (teamBeesLogic pageId s)"
  by (simp add: teamBeesLogic_def Let_def)



lemma filter_none: "(\<And>x. x \<in> set xs \<Longrightarrow> \<not> P x) \<Longrightarrow> filter P xs = []"
  by (induction xs) auto



lemma agree_KA_section:
  "agree KA d d' \<Longrightarrow> j < length d \<Longrightarrow>
     contains ''page-section'' (d' ! j) = contains ''page-section'' (d ! j) \<and>
     contains ''active'' (d' ! j) = contains ''active'' (d ! j)"
  by (simp add: agree_def KA_def)

lemma agree_length: "agree cs d d' \<Longrightarrow> length d' = length d"
  by (simp add: agree_def)

lemma switchPage_resume_home:
  assumes wf: "wf_document (document s)"
  shows "\<exists>s3. switchPage_resume s ''home'' = Inr (teamBeesLogic ''home'' s3) \<and> resumed s ''home'' s3"
proof -
  let ?d = "document s"
  obtain s1 where e: "enterHome s = Inr s1" and a1: "agree KA ?d (document s1)"
    and r1: "teamBeeGroup_visible s1 = teamBeeGroup_visible s" "teamBeeTimer s1 = teamBeeTimer s"
       "timers s1 = timers s" "nextHandle s1 = nextHandle s"
    using enterHome_ok [OF wf] by blast
  define d2 where "d2 = swapSections ''home'' (document s1)"
  have a2: "agree KS (document s1) d2" unfolding d2_def by (rule swapSections_agree)
  have a02: "agree KS ?d d2" using agree_mono [OF a1 KS_KA] a2 by (rule agree_trans)
  have wf2: "wf_document d2" using a02 wf by (rule wf_agree)
  then have "\<not> list_ex (\<lambda>e. contains ''nav-link'' e \<and> onclick e = None) d2"
    by (simp add: wf_document_def)
  then obtain d3 where u: "updateNavLinks ''home'' d2 = Inr d3" and a3: "agree KA d2 d3"
    using updateNavLinks_ok by blast
  define s3 where "s3 = s1\<lparr>document := d3\<rparr>"
  have sp: "switchPage_resume s ''home'' = Inr (teamBeesLogic ''home'' s3)"
    using e u by (simp add: switchPage_resume_def Let_def d2_def s3_def)
  have a03: "agree KS ?d d3" using a02 agree_mono [OF a3 KS_KA] by (rule agree_trans)
  have act: "contains ''active'' (d3 ! j) = (getElementById ?d ''home-page'' = Some j)"
    if j: "j < length ?d" and sec: "contains ''page-section'' (?d ! j)" for j
  proof -
    have l1: "j < length (document s1)" using a1 j by (simp add: agree_length)
    have l2: "j < length d2" using a02 j by (simp add: agree_length)
    have "contains ''page-section'' (document s1 ! j)"
      using agree_KA_section [OF a1 j] sec by simp
    then have "contains ''active'' (d2 ! j) = (getElementById (document s1) ''home-page'' = Some j)"
      unfolding d2_def using swapSections_active [OF l1, of "''home''"] by simp
    moreover have "contains ''active'' (d3 ! j) = contains ''active'' (d2 ! j)"
      using agree_KA_section [OF a3 l2] by simp
    moreover have "getElementById (document s1) ''home-page'' = getElementById ?d ''home-page''"
      using a1 by (rule agree_getElementById)
    ultimately show ?thesis by simp
  qed
  have "resumed s ''home'' s3"
    unfolding resumed_def using a03 act r1 by (simp add: s3_def)
  then show ?thesis using sp by blast
qed

lemma switchPage_resume_other:
  assumes wf: "wf_document (document s)" and nh: "pageId \<noteq> ''home''"
  shows "\<exists>s3. switchPage_resume s pageId = Inr (teamBeesLogic pageId s3) \<and> resumed s pageId s3"
proof -
  let ?d = "document s"
  define d1 where "d1 = swapSections pageId ?d"
  define s1 where "s1 = s\<lparr>document := d1\<rparr>"
  have a1: "agree KS ?d d1" unfolding d1_def by (rule swapSections_agree)
  have wf1: "wf_document (document s1)" using wf_agree [OF a1 wf] by (simp add: s1_def)
  obtain s2 where c: "nonHomeChrome pageId s1 = Inr s2" and a2: "agree KA (document s1) (document s2)"
    and r2: "bookState s2 = bookState s1" "teamBeeGroup_visible s2 = teamBeeGroup_visible s1"
      "teamBeeTimer s2 = teamBeeTimer s1" "nextHandle s2 = Suc (nextHandle s1)"
    and t2: "timers s2 = timers s1 @
             [\<lparr>t_handle = nextHandle s1, t_delay = 800,
               t_callback = CanvasOpacity (getElementById (document s1) ''canvas-container'') pageId\<rparr>]"
    using nonHomeChrome_ok [OF wf1, of pageId] by blast
  have a2': "agree KA d1 (document s2)" using a2 by (simp add: s1_def)
  have a02: "agree KS ?d (document s2)" using a1 agree_mono [OF a2' KS_KA] by (rule agree_trans)
  have "wf_document (document s2)" using a02 wf by (rule wf_agree)
  then have "\<not> list_ex (\<lambda>e. contains ''nav-link'' e \<and> onclick e = None) (document s2)"
    by (simp add: wf_document_def)
  then obtain d3 where u: "updateNavLinks pageId (document s2) = Inr d3"
    and a3: "agree KA (document s2) d3"
    using updateNavLinks_ok by blast
  define s3 where "s3 = s2\<lparr>document := d3\<rparr>"
  have sp: "switchPage_resume s pageId = Inr (teamBeesLogic pageId s3)"
    using nh c u by (simp add: switchPage_resume_def Let_def d1_def s1_def s3_def)
  have a03: "agree KS ?d d3" using a02 agree_mono [OF a3 KS_KA] by (rule agree_trans)
  have act: "contains ''active'' (d3 ! j) = (getElementById ?d pageId = Some j)"
    if j: "j < length ?d" and sec: "contains ''page-section'' (?d ! j)" for j
  proof -
    have l1: "j < length d1" using a1 j by (simp add: agree_length)
    have l2: "j < length (document s2)" using a02 j by (simp add: agree_length)
    have "contains ''active'' (d1 ! j) = (getElementById ?d pageId = Some j)"
      unfolding d1_def using swapSections_active [OF j sec, of pageId] nh by simp
    moreover have "contains ''active'' (document s2 ! j) = contains ''active'' (d1 ! j)"
      using agree_KA_section [OF a2' l1] by simp
    moreover have "contains ''active'' (d3 ! j) = contains ''active'' (document s2 ! j)"
      using agree_KA_section [OF a3 l2] by simp
    ultimately show ?thesis by simp
  qed
  obtain canvas where cv: "getElementById (document s1) ''canvas-container'' = Some canvas"
    using wf1 by (auto simp: wf_document_def)
  have "resumed s pageId s3"
    unfolding resumed_def using a03 act r2 t2 nh cv by (simp add: s3_def s1_def)
  then show ?thesis using sp by blast
qed

lemma switchPage_resume_ok:
  assumes "wf_document (document s)"
  shows "\<exists>s3. switchPage_resume s pageId = Inr (teamBeesLogic pageId s3) \<and> resumed s pageId s3"
  using switchPage_resume_home [OF assms] switchPage_resume_other [OF assms]
  by (cases "pageId = ''home''") simp_all


lemma filter_upt_eq: "filter (\<lambda>i. i = t) [0..<n] = (if t < n then [t] else [])"
  by (induction n) auto

lemma activeSections_single:
  assumes "t < length d"
    and "\<And>j. j < length d \<Longrightarrow>
           (contains ''page-section'' (d ! j) \<and> contains ''active'' (d ! j)) = (j = t)"
  shows "activeSections d = [t]"
proof -
  have "filter (\<lambda>i. contains ''page-section'' (d ! i) \<and> contains ''active'' (d ! i)) [0..<length d]
        = filter (\<lambda>i. i = t) [0..<length d]"
    using assms(2) by (intro filter_cong) simp_all
  then show ?thesis using assms(1) by (simp add: activeSections_def filter_upt_eq)
qed

lemma activeSections_none:
  assumes "\<And>j. j < length d \<Longrightarrow>
           \<not> (contains ''page-section'' (d ! j) \<and> contains ''active'' (d ! j))"
  shows "activeSections d = []"
  unfolding activeSections_def using assms by (intro filter_none) simp


lemma resumed_length: "resumed s pageId s3 \<Longrightarrow> length (document s3) = length (document s)"
  by (simp add: resumed_def agree_def)

lemma updateNavLinks_agree:
  assumes "''text-[#D4AF37]'' \<notin> cs" and "updateNavLinks pageId d = Inr d'"
  shows "agree cs d d'"
proof -
  define d1 where "d1 = forEach_class ''nav-link'' (classList_remove [''text-[#D4AF37]'']) d"
  define f where "f = (\<lambda>link. case onclick link of
                             None \<Rightarrow> link
                           | Some a \<Rightarrow> if str_includes a pageId
                                       then classList_add [''text-[#D4AF37]''] link else link)"
  have c: "cs \<inter> set [''text-[#D4AF37]''] = {}" using assms(1) by simp
  have a1: "agree cs d d1"
    unfolding d1_def by (intro agree_forEach keeps_remove c)
  have "keeps cs f"
    using keeps_add [OF c] by (auto simp: keeps_def f_def split: option.splits)
  then have a2: "agree cs d1 (forEach_class ''nav-link'' f d1)"
    by (rule agree_forEach)
  have "d' = forEach_class ''nav-link'' f d1"
    using assms(2) by (simp add: updateNavLinks_def Let_def d1_def f_def split: if_splits)
  then show ?thesis using a1 a2 by (simp add: agree_trans)
qed

lemma updateNavLinks_highlight:
  assumes "updateNavLinks pageId d = Inr d'" and "j < length d" and "contains ''nav-link'' (d ! j)"
  shows "contains ''text-[#D4AF37]'' (d' ! j) =
         (\<exists>a. onclick (d ! j) = Some a \<and> str_includes a pageId)"
proof -
  define d1 where "d1 = forEach_class ''nav-link'' (classList_remove [''text-[#D4AF37]'']) d"
  define f where "f = (\<lambda>link. case onclick link of
                             None \<Rightarrow> link
                           | Some a \<Rightarrow> if str_includes a pageId
                                       then classList_add [''text-[#D4AF37]''] link else link)"
  have e: "d' = forEach_class ''nav-link'' f d1"
    using assms(1) by (simp add: updateNavLinks_def Let_def d1_def f_def split: if_splits)
  have 1: "d1 ! j = classList_remove [''text-[#D4AF37]''] (d ! j)"
    using assms(2,3) by (simp add: d1_def forEach_class_nth)
  have n1: "contains ''nav-link'' (d1 ! j)"
    unfolding 1 using assms(3) by (simp add: contains_remove)
  have o1: "onclick (d1 ! j) = onclick (d ! j)"
    unfolding 1 by (simp add: classList_remove_def)
  have h1: "\<not> contains ''text-[#D4AF37]'' (d1 ! j)"
    unfolding 1 by (simp add: contains_remove)
  have "d' ! j = f (d1 ! j)"
    unfolding e using assms(2) n1 by (simp add: forEach_class_nth d1_def)
  then show ?thesis
    using o1 h1 by (auto simp: f_def contains_add split: option.splits)
qed

lemma nonHomeChrome_header:
  assumes "nonHomeChrome pageId s = Inr s'"
    and "getElementById (document s) ''main-header'' = Some header"
  shows "(\<forall>c\<in>set header_solid. contains c (document s' ! header)) \<and>
         \<not> contains ''py-6'' (document s' ! header)"
proof -
  let ?d = "document s"
  define d1 where "d1 = update_at header (classList_add header_solid) ?d"
  define d2 where "d2 = update_at header (classList_remove [''py-6'']) d1"
  have hl: "header < length ?d" and hi: "elemId (?d ! header) = ''main-header''"
    using assms(2) by (simp_all add: getElementById_Some)
  have a12: "agree {} ?d d2"
    unfolding d2_def d1_def
    by (intro agree_trans [OF agree_update_at agree_update_at] keeps_add keeps_remove) simp_all
  obtain navContainer where n: "getElementById d2 ''nav-container'' = Some navContainer"
    and e: "document s' = update_at navContainer (classList_remove nav_pill) d2"
    using assms
    by (auto simp: nonHomeChrome_def Let_def setTimeout_def d1_def d2_def split: option.splits)
  have "getElementById ?d ''nav-container'' = Some navContainer"
    using agree_getElementById [OF a12] n by simp
  then have "elemId (?d ! navContainer) = ''nav-container''"
    by (simp add: getElementById_Some)
  then have ne: "navContainer \<noteq> header" using hi by auto
  have "d2 ! header = classList_remove [''py-6''] (classList_add header_solid (?d ! header))"
    using hl by (simp add: d2_def d1_def update_at_nth)
  moreover have "document s' ! header = d2 ! header"
    unfolding e using hl ne by (simp add: update_at_nth d2_def d1_def)
  ultimately show ?thesis
    by (auto simp: contains_remove contains_add header_solid_def)
qed

lemma HS_highlight: "''text-[#D4AF37]'' \<notin> HS"
  by (simp add: HS_def header_solid_def)

lemma KA_highlight_notin: "''text-[#D4AF37]'' \<notin> KA"
  by (simp add: KA_def)

subsection \<open>Effects that need nothing of the markup\<close>

lemma enterHome_agree:
  assumes "enterHome s = Inr s'"
  shows "agree KA (document s) (document s')"
proof -
  obtain canvas header navContainer where
    e: "document s' = update_at navContainer (classList_add nav_pill)
          (update_at header (classList_add [''py-6''])
             (update_at header (classList_remove header_solid)
                (update_at canvas (\<lambda>e. e\<lparr>style_opacity := ''1''\<rparr>) (document s))))"
    using assms by (auto simp: enterHome_def Let_def split: option.splits)
  define d1 where "d1 = update_at canvas (\<lambda>e. e\<lparr>style_opacity := ''1''\<rparr>) (document s)"
  define d2 where "d2 = update_at header (classList_remove header_solid) d1"
  define d3 where "d3 = update_at header (classList_add [''py-6'']) d2"
  have a1: "agree KA (document s) d1"
    unfolding d1_def by (intro agree_update_at keeps_opacity)
  have a2: "agree KA d1 d2"
    unfolding d2_def by (intro agree_update_at keeps_remove KA_header_solid)
  have a3: "agree KA d2 d3"
    unfolding d3_def by (intro agree_update_at keeps_add KA_py6)
  have a4: "agree KA d3 (update_at navContainer (classList_add nav_pill) d3)"
    by (intro agree_update_at keeps_add KA_nav_pill)
  have "document s' = update_at navContainer (classList_add nav_pill) d3"
    unfolding e d3_def d2_def d1_def ..
  then show ?thesis using a1 a2 a3 a4 by (auto intro: agree_trans)
qed

lemma nonHomeChrome_agree:
  assumes "nonHomeChrome pageId s = Inr s'"
  shows "agree KA (document s) (document s') \<and> bookState s' = bookState s \<and>
         teamBeeGroup_visible s' = teamBeeGroup_visible s"
proof -
  obtain header navContainer where
    e: "s' = (snd (setTimeout (CanvasOpacity (getElementById (document s) ''canvas-container'') pageId)
                    800 s))
          \<lparr>document := update_at navContainer (classList_remove nav_pill)
             (update_at header (classList_remove [''py-6''])
                (update_at header (classList_add header_solid) (document s)))\<rparr>"
    using assms by (auto simp: nonHomeChrome_def Let_def setTimeout_def split: option.splits)
  define d1 where "d1 = update_at header (classList_add header_solid) (document s)"
  define d2 where "d2 = update_at header (classList_remove [''py-6'']) d1"
  have a1: "agree KA (document s) d1"
    unfolding d1_def by (intro agree_update_at keeps_add KA_header_solid)
  have a2: "agree KA d1 d2"
    unfolding d2_def by (intro agree_update_at keeps_remove KA_py6)
  have a3: "agree KA d2 (update_at navContainer (classList_remove nav_pill) d2)"
    by (intro agree_update_at keeps_remove KA_nav_pill)
  have "document s' = update_at navContainer (classList_remove nav_pill) d2"
    unfolding e d2_def d1_def by simp
  then have "agree KA (document s) (document s')"
    using a1 a2 a3 by (auto intro: agree_trans)
  then show ?thesis unfolding e by (simp add: setTimeout_def)
qed

text \<open>
  The steps of the code that follows the wait, when it raises nothing.
\<close>

lemma switchPage_resume_steps:
  assumes "switchPage_resume s pageId = Inr s'"
  shows "\<exists>s1 s2 d3.
           (if pageId = ''home'' then enterHome s = Inr s1 else s1 = s) \<and>
           (if pageId = ''home'' then s2 = s1\<lparr>document := swapSections pageId (document s1)\<rparr>
            else nonHomeChrome pageId (s1\<lparr>document := swapSections pageId (document s1)\<rparr>) = Inr s2) \<and>
           updateNavLinks pageId (document s2) = Inr d3 \<and>
           s' = teamBeesLogic pageId (s2\<lparr>document := d3\<rparr>)"
  using assms by (auto simp: switchPage_resume_def Let_def split: sum.splits if_splits)

lemma switchPage_resume_sections:
  assumes sp: "switchPage_resume s pageId = Inr s'"
  shows "agree KS (document s) (document s') \<and>
         (\<forall>j<length (document s). contains ''page-section'' (document s ! j) \<longrightarrow>
            contains ''active'' (document s' ! j) =
              (getElementById (document s) (if pageId = ''home'' then ''home-page'' else pageId) = Some j))"
proof -
  let ?d = "document s"
  let ?i = "if pageId = ''home'' then ''home-page'' else pageId"
  obtain s1 s2 d3 where
    1: "if pageId = ''home'' then enterHome s = Inr s1 else s1 = s" and
    2: "if pageId = ''home'' then s2 = s1\<lparr>document := swapSections pageId (document s1)\<rparr>
        else nonHomeChrome pageId (s1\<lparr>document := swapSections pageId (document s1)\<rparr>) = Inr s2" and
    3: "updateNavLinks pageId (document s2) = Inr d3" and
    4: "s' = teamBeesLogic pageId (s2\<lparr>document := d3\<rparr>)"
    using switchPage_resume_steps [OF sp] by blast
  define dm where "dm = swapSections pageId (document s1)"
  have a1: "agree KA ?d (document s1)"
    using 1 enterHome_agree [of s s1] by (auto simp: agree_refl split: if_splits)
  have am: "agree KS (document s1) dm" unfolding dm_def by (rule swapSections_agree)
  have a2: "agree KA dm (document s2)"
    using 2 nonHomeChrome_agree [of pageId "s1\<lparr>document := dm\<rparr>" s2]
    by (auto simp: agree_refl dm_def split: if_splits)
  have a3: "agree KA (document s2) d3"
    using updateNavLinks_agree [OF KA_highlight_notin 3] .
  have d': "document s' = d3" unfolding 4 by (simp add: teamBeesLogic_document)
  have a0m: "agree KS ?d dm" using agree_mono [OF a1 KS_KA] am by (rule agree_trans)
  have am3: "agree KA dm d3" using a2 a3 by (rule agree_trans)
  have a03: "agree KS ?d d3" using a0m agree_mono [OF am3 KS_KA] by (rule agree_trans)
  have act: "contains ''active'' (d3 ! j) = (getElementById ?d ?i = Some j)"
    if j: "j < length ?d" and sec: "contains ''page-section'' (?d ! j)" for j
  proof -
    have l1: "j < length (document s1)" using a1 j by (simp add: agree_length)
    have lm: "j < length dm" using a0m j by (simp add: agree_length)
    have "contains ''page-section'' (document s1 ! j)"
      using agree_KA_section [OF a1 j] sec by simp
    then have "contains ''active'' (dm ! j) = (getElementById (document s1) ?i = Some j)"
      unfolding dm_def using swapSections_active [OF l1, of pageId] by simp
    moreover have "contains ''active'' (d3 ! j) = contains ''active'' (dm ! j)"
      using agree_KA_section [OF am3 lm] by simp
    moreover have "getElementById (document s1) ?i = getElementById ?d ?i"
      using a1 by (rule agree_getElementById)
    ultimately show ?thesis by simp
  qed
  show ?thesis unfolding d' using a03 act by blast
qed

lemma switchPage_resume_active:
  assumes sp: "switchPage_resume s pageId = Inr s'"
  shows "activeSections (document s') =
           (case getElementById (document s) (if pageId = ''home'' then ''home-page'' else pageId) of
              None \<Rightarrow> []
            | Some t \<Rightarrow> if contains ''page-section'' (document s ! t) then [t] else [])"
proof -
  let ?d = "document s" and ?d' = "document s'"
  let ?i = "if pageId = ''home'' then ''home-page'' else pageId"
  have a: "agree KS ?d ?d'"
    and act: "\<And>j. j < length ?d \<Longrightarrow> contains ''page-section'' (?d ! j) \<Longrightarrow>
            contains ''active'' (?d' ! j) = (getElementById ?d ?i = Some j)"
    using switchPage_resume_sections [OF sp] by blast+
  have l: "length ?d' = length ?d" using a by (rule agree_length)
  have sec: "contains ''page-section'' (?d' ! j) = contains ''page-section'' (?d ! j)"
    if "j < length ?d" for j
    using a that by (simp add: agree_def KS_def)
  have both: "(contains ''page-section'' (?d' ! j) \<and> contains ''active'' (?d' ! j)) =
              (contains ''page-section'' (?d ! j) \<and> getElementById ?d ?i = Some j)"
    if "j < length ?d'" for j
    using that l sec [of j] act [of j] by auto
  show ?thesis
  proof (cases "getElementById ?d ?i")
    case None
    have "activeSections ?d' = []"
      by (rule activeSections_none) (simp add: both None)
    then show ?thesis using None by simp
  next
    case (Some t)
    have tl: "t < length ?d" using Some by (simp add: getElementById_Some)
    show ?thesis
    proof (cases "contains ''page-section'' (?d ! t)")
      case True
      have "activeSections ?d' = [t]"
      proof (rule activeSections_single)
        show "t < length ?d'" using tl l by simp
      next
        fix j assume "j < length ?d'"
        then show "(contains ''page-section'' (?d' ! j) \<and> contains ''active'' (?d' ! j)) = (j = t)"
          using both [of j] Some True by auto
      qed
      then show ?thesis using Some True by simp
    next
      case False
      have "activeSections ?d' = []"
      proof (rule activeSections_none)
        fix j assume "j < length ?d'"
        then show "\<not> (contains ''page-section'' (?d' ! j) \<and> contains ''active'' (?d' ! j))"
          using both [of j] Some False by auto
      qed
      then show ?thesis using Some False by simp
    qed
  qed
qed

lemma switchPage_resume_bookState:
  assumes sp: "switchPage_resume s pageId = Inr s'" and nh: "pageId \<noteq> ''home''"
  shows "bookState s' = bookState s"
proof -
  obtain s2 d3 where
    2: "nonHomeChrome pageId (s\<lparr>document := swapSections pageId (document s)\<rparr>) = Inr s2" and
    4: "s' = teamBeesLogic pageId (s2\<lparr>document := d3\<rparr>)"
    using switchPage_resume_steps [OF sp] nh by auto
  have "bookState s2 = bookState s" using nonHomeChrome_agree [OF 2] by simp
  then show ?thesis unfolding 4
    by (simp add: teamBeesLogic_def clearTimeout_def setTimeout_def Let_def split: option.splits)
qed

lemma switchPage_resume_flag:
  assumes sp: "switchPage_resume s pageId = Inr s'" and nt: "pageId \<noteq> ''team''"
  shows "\<not> teamBeeGroup_visible s'"
proof -
  obtain s2 d3 where "s' = teamBeesLogic pageId (s2\<lparr>document := d3\<rparr>)"
    using switchPage_resume_steps [OF sp] by blast
  then show ?thesis using nt by (simp add: teamBeesLogic_leave)
qed

text \<open>An invocation: the wait, or the rest of the function at once.\<close>

lemma switchPage_wait:
  assumes "getElementById (document s) ''home-page'' = Some home"
    and "contains ''active'' (document s ! home)" and "pageId \<noteq> ''home''"
  shows "switchPage s pageId =
           Inr (s\<lparr>bookState := (bookState s)\<lparr>bs_target := 0\<rparr>,
                  timers := timers s @
                    [\<lparr>t_handle = nextHandle s, t_delay = 500, t_callback = Resume pageId\<rparr>],
                  nextHandle := Suc (nextHandle s)\<rparr>)"
  using assms by (simp add: switchPage_def Let_def setTimeout_def)

lemma switchPage_at_once:
  assumes "getElementById (document s) ''home-page'' = Some home"
    and "\<not> contains ''active'' (document s ! home) \<or> pageId = ''home''"
  shows "switchPage s pageId = switchPage_resume s pageId"
  using assms by (auto simp: switchPage_def Let_def)

lemma fire_Resume:
  assumes "find (\<lambda>t. t_handle t = h) (timers s0) = Some t" and "t_callback t = Resume pageId"
  shows "fire h s0 = switchPage_resume (s0\<lparr>timers := remove1 t (timers s0)\<rparr>) pageId"
  using assms by (simp add: fire_def Let_def)


lemma switchPage_resume_chrome:
  assumes nh: "pageId \<noteq> ''home''"
    and sp: "switchPage_resume s pageId = Inr s'"
  shows "(\<forall>header. getElementById (document s) ''main-header'' = Some header \<longrightarrow>
            (\<forall>c\<in>set header_solid. contains c (document s' ! header)) \<and>
            \<not> contains ''py-6'' (document s' ! header)) \<and>
         (\<forall>j<length (document s). contains ''nav-link'' (document s ! j) \<longrightarrow>
            contains ''text-[#D4AF37]'' (document s' ! j) =
              (\<exists>a. onclick (document s ! j) = Some a \<and> str_includes a pageId))"
proof -
  let ?d = "document s"
  define d1 where "d1 = swapSections pageId ?d"
  define s1 where "s1 = s\<lparr>document := d1\<rparr>"
  have a1: "agree KS ?d d1" unfolding d1_def by (rule swapSections_agree)
  obtain s2 d3 where c: "nonHomeChrome pageId s1 = Inr s2"
    and u: "updateNavLinks pageId (document s2) = Inr d3"
    and e: "s' = teamBeesLogic pageId (s2\<lparr>document := d3\<rparr>)"
    using switchPage_resume_steps [OF sp] nh by (auto simp: s1_def d1_def)
  have a2: "agree KA (document s1) (document s2)"
    using nonHomeChrome_agree [OF c] by simp
  have a2': "agree KA d1 (document s2)" using a2 by (simp add: s1_def)
  have a02: "agree KS ?d (document s2)" using a1 agree_mono [OF a2' KS_KA] by (rule agree_trans)
  have d': "document s' = d3" unfolding e by (simp add: teamBeesLogic_document)
  have l2: "length (document s2) = length ?d" using a02 by (rule agree_length)
  have hd: "(\<forall>c\<in>set header_solid. contains c (d3 ! header)) \<and> \<not> contains ''py-6'' (d3 ! header)"
    if h: "getElementById ?d ''main-header'' = Some header" for header
  proof -
    have "getElementById (document s1) ''main-header'' = Some header"
      using agree_getElementById [OF a1] h by (simp add: s1_def)
    from nonHomeChrome_header [OF c this]
    have 2: "(\<forall>c\<in>set header_solid. contains c (document s2 ! header)) \<and>
             \<not> contains ''py-6'' (document s2 ! header)" .
    have "header < length (document s2)" using h l2 by (simp add: getElementById_Some)
    then have "\<forall>c\<in>HS. contains c (d3 ! header) = contains c (document s2 ! header)"
      using updateNavLinks_agree [OF HS_highlight u] by (simp add: agree_def)
    then show ?thesis using 2 by (simp add: HS_def)
  qed
  have nv: "contains ''text-[#D4AF37]'' (d3 ! j) =
              (\<exists>a. onclick (?d ! j) = Some a \<and> str_includes a pageId)"
    if j: "j < length ?d" and n: "contains ''nav-link'' (?d ! j)" for j
  proof -
    have "contains ''nav-link'' (document s2 ! j)" and "onclick (document s2 ! j) = onclick (?d ! j)"
      using a02 j n by (simp_all add: agree_def KS_def)
    then show ?thesis
      using updateNavLinks_highlight [OF u, of j] j l2 by simp
  qed
  show ?thesis unfolding d' using hd nv by blast
qed

subsection \<open>The timers of the team bees\<close>


















lemma example_wf: "wf_document (document examplePage)"
  by code_simp


lemma switchPage_total:
  assumes "wf_document (document s)"
  shows "\<exists>s'. switchPage s pageId = Inr s'"
proof -
  obtain home where "getElementById (document s) ''home-page'' = Some home"
    using assms by (auto simp: wf_document_def split: option.splits)
  then show ?thesis
    using switchPage_resume_ok [OF assms, of pageId] by (auto simp: switchPage_def Let_def)
qed






subsection \<open>The claims about navigation\<close>

text \<open>
  C6, amended. For any page id and any page state:
  \<^enum> Whenever the code that follows the wait of \<open>switchPage\<close> (lines 200-287) has run and
    raised nothing, the page sections that carry the active marker are: exactly the
    element the page id resolves to (\<open>'home'\<close> to the element \<open>home-page\<close>, any other id
    to the element of that id), when that element is a page section; none, when the id
    resolves to no element, or to an element that is no page section.
  \<^enum> That code raises nothing when the markup has the element \<open>home-page\<close> as a page
    section, the elements \<open>canvas-container\<close>, \<open>main-header\<close> and \<open>nav-container\<close>, and
    an \<open>onclick\<close> on every navigation link.
  \<^enum> Where the element \<open>home-page\<close> exists: an invocation for a page other than home,
    made while \<open>home-page\<close> carries the active marker, leaves the document as it is and
    starts the wait of 500 ms; every other invocation is the code that follows the wait,
    run at once.
  \<^enum> When a wait ends, what runs is the code that follows the wait, on the page as it is
    then.
\<close>

theorem switchPage_one_active:
  "(\<forall>s'. switchPage_resume s pageId = Inr s' \<longrightarrow>
      activeSections (document s') =
        (case getElementById (document s) (if pageId = ''home'' then ''home-page'' else pageId) of
           None \<Rightarrow> []
         | Some t \<Rightarrow> if contains ''page-section'' (document s ! t) then [t] else [])) \<and>
   (wf_document (document s) \<longrightarrow> (\<exists>s'. switchPage_resume s pageId = Inr s')) \<and>
   (\<forall>home. getElementById (document s) ''home-page'' = Some home \<longrightarrow>
      (if contains ''active'' (document s ! home) \<and> pageId \<noteq> ''home''
       then \<exists>s1. switchPage s pageId = Inr s1 \<and> document s1 = document s \<and>
              timers s1 = timers s @
                [\<lparr>t_handle = nextHandle s, t_delay = 500, t_callback = Resume pageId\<rparr>]
       else switchPage s pageId = switchPage_resume s pageId)) \<and>
   (\<forall>s0 h t. find (\<lambda>t. t_handle t = h) (timers s0) = Some t \<and> t_callback t = Resume pageId \<and>
      s = s0\<lparr>timers := remove1 t (timers s0)\<rparr> \<longrightarrow>
      fire h s0 = switchPage_resume s pageId)"
proof (intro conjI allI impI)
  fix s' assume "switchPage_resume s pageId = Inr s'"
  then show "activeSections (document s') =
        (case getElementById (document s) (if pageId = ''home'' then ''home-page'' else pageId) of
           None \<Rightarrow> []
         | Some t \<Rightarrow> if contains ''page-section'' (document s ! t) then [t] else [])"
    by (rule switchPage_resume_active)
next
  assume "wf_document (document s)"
  then show "\<exists>s'. switchPage_resume s pageId = Inr s'"
    using switchPage_resume_ok [of s pageId] by blast
next
  fix home assume h: "getElementById (document s) ''home-page'' = Some home"
  show "if contains ''active'' (document s ! home) \<and> pageId \<noteq> ''home''
       then \<exists>s1. switchPage s pageId = Inr s1 \<and> document s1 = document s \<and>
              timers s1 = timers s @
                [\<lparr>t_handle = nextHandle s, t_delay = 500, t_callback = Resume pageId\<rparr>]
       else switchPage s pageId = switchPage_resume s pageId"
  proof (cases "contains ''active'' (document s ! home) \<and> pageId \<noteq> ''home''")
    case True
    then show ?thesis using switchPage_wait [OF h, of pageId] by simp
  next
    case False
    then show ?thesis using switchPage_at_once [OF h, of pageId] by auto
  qed
next
  fix s0 h t
  assume "find (\<lambda>t. t_handle t = h) (timers s0) = Some t \<and> t_callback t = Resume pageId \<and>
      s = s0\<lparr>timers := remove1 t (timers s0)\<rparr>"
  then show "fire h s0 = switchPage_resume s pageId"
    using fire_Resume [of h s0 t pageId] by simp
qed

theorem switchPage_one_active_witness:
  "(\<exists>s'. switchPage_resume examplePage ''hive'' = Inr s' \<and> activeSections (document s') = [1]) \<and>
   (\<exists>s1. switchPage examplePage ''hive'' = Inr s1 \<and> document s1 = document examplePage \<and>
      timers s1 = [\<lparr>t_handle = 1, t_delay = 500, t_callback = Resume ''hive''\<rparr>])"
proof -
  have 1: "wf_document (document examplePage)" by (rule example_wf)
  have 2: "getElementById (document examplePage) ''hive'' = Some 1" by code_simp
  have 3: "contains ''page-section'' (document examplePage ! 1)" by code_simp
  have 4: "getElementById (document examplePage) ''home-page'' = Some 0" by code_simp
  have 5: "contains ''active'' (document examplePage ! 0)" by code_simp
  have 6: "timers examplePage = []" "nextHandle examplePage = 1" by (simp_all add: examplePage_def)
  note th = switchPage_one_active [of examplePage "''hive''"]
  obtain s' where s': "switchPage_resume examplePage ''hive'' = Inr s'"
    using th 1 by blast
  have "activeSections (document s') =
        (case getElementById (document examplePage) (if ''hive'' = ''home'' then ''home-page'' else ''hive'') of
           None \<Rightarrow> []
         | Some t \<Rightarrow> if contains ''page-section'' (document examplePage ! t) then [t] else [])"
    using th s' by blast
  then have a: "activeSections (document s') = [1]" using 2 3 by simp
  have "if contains ''active'' (document examplePage ! 0) \<and> ''hive'' \<noteq> ''home''
       then \<exists>s1. switchPage examplePage ''hive'' = Inr s1 \<and> document s1 = document examplePage \<and>
              timers s1 = timers examplePage @
                [\<lparr>t_handle = nextHandle examplePage, t_delay = 500, t_callback = Resume ''hive''\<rparr>]
       else switchPage examplePage ''hive'' = switchPage_resume examplePage ''hive''"
    using th 4 by blast
  then have b: "\<exists>s1. switchPage examplePage ''hive'' = Inr s1 \<and> document s1 = document examplePage \<and>
      timers s1 = [\<lparr>t_handle = 1, t_delay = 500, t_callback = Resume ''hive''\<rparr>]"
    using 5 6 by simp
  show ?thesis using s' a b by blast
qed

text \<open>
  C6, as stated, fails: on the example page showing the hive section, \<open>switchPage\<close> for
  an id that matches no element leaves no page section active.
\<close>

theorem switchPage_nowhere_counterexample:
  "map_sum id (\<lambda>s. activeSections (document s))
     (run [Navigate ''hive'', Timeout 1] examplePage) = Inr [1] \<and>
   map_sum id (\<lambda>s. activeSections (document s))
     (run [Navigate ''hive'', Timeout 1, Navigate ''nowhere''] examplePage) = Inr []"
  by code_simp

text \<open>
  C7, amended. For a page id other than \<open>'home'\<close> that matches no element:
  \<^enum> \<open>switchPage\<close> raises nothing, neither before nor after its wait, when the markup
    has the element \<open>home-page\<close> as a page section, the elements \<open>canvas-container\<close>,
    \<open>main-header\<close> and \<open>nav-container\<close>, and an \<open>onclick\<close> on every navigation link.
  \<^enum> Where the element \<open>home-page\<close> exists: an invocation made while it carries the
    active marker sets the target of the book to \<open>0\<close>, starts the wait of 500 ms and
    changes nothing else; an invocation made while it does not is the code that follows
    the wait, run at once.
  \<^enum> When a wait ends, what runs is the code that follows the wait, on the page as it is
    then.
  \<^enum> Whenever the code that follows the wait has run and raised nothing, it was no no-op:
    no page section carries the active marker; the header has the five classes of the
    solid style and not \<open>py-6\<close>; a navigation link is highlighted exactly when its
    \<open>onclick\<close> text contains the page id; the team bees are hidden, unless the id is
    \<open>'team'\<close>; the book state is as it was before that code ran.
\<close>

theorem switchPage_no_target:
  assumes nh: "pageId \<noteq> ''home''"
    and nt: "getElementById (document s) pageId = None"
  shows "(wf_document (document s) \<longrightarrow>
            (\<exists>s1. switchPage s pageId = Inr s1) \<and> (\<exists>s'. switchPage_resume s pageId = Inr s')) \<and>
         (\<forall>home. getElementById (document s) ''home-page'' = Some home \<longrightarrow>
            switchPage s pageId =
              (if contains ''active'' (document s ! home)
               then Inr (s\<lparr>bookState := (bookState s)\<lparr>bs_target := 0\<rparr>,
                          timers := timers s @
                            [\<lparr>t_handle = nextHandle s, t_delay = 500, t_callback = Resume pageId\<rparr>],
                          nextHandle := Suc (nextHandle s)\<rparr>)
               else switchPage_resume s pageId)) \<and>
         (\<forall>s0 h t. find (\<lambda>t. t_handle t = h) (timers s0) = Some t \<and>
            t_callback t = Resume pageId \<and> s = s0\<lparr>timers := remove1 t (timers s0)\<rparr> \<longrightarrow>
            fire h s0 = switchPage_resume s pageId) \<and>
         (\<forall>s'. switchPage_resume s pageId = Inr s' \<longrightarrow>
            activeSections (document s') = [] \<and>
            bookState s' = bookState s \<and>
            (pageId \<noteq> ''team'' \<longrightarrow> \<not> teamBeeGroup_visible s') \<and>
            (\<forall>header. getElementById (document s) ''main-header'' = Some header \<longrightarrow>
               (\<forall>c\<in>set header_solid. contains c (document s' ! header)) \<and>
               \<not> contains ''py-6'' (document s' ! header)) \<and>
            (\<forall>j<length (document s). contains ''nav-link'' (document s ! j) \<longrightarrow>
               contains ''text-[#D4AF37]'' (document s' ! j) =
                 (\<exists>a. onclick (document s ! j) = Some a \<and> str_includes a pageId)))"
proof -
  have 1: "wf_document (document s) \<longrightarrow>
            (\<exists>s1. switchPage s pageId = Inr s1) \<and> (\<exists>s'. switchPage_resume s pageId = Inr s')"
    using switchPage_total [of s pageId] switchPage_resume_ok [of s pageId] by blast
  have 2: "switchPage s pageId =
              (if contains ''active'' (document s ! home)
               then Inr (s\<lparr>bookState := (bookState s)\<lparr>bs_target := 0\<rparr>,
                          timers := timers s @
                            [\<lparr>t_handle = nextHandle s, t_delay = 500, t_callback = Resume pageId\<rparr>],
                          nextHandle := Suc (nextHandle s)\<rparr>)
               else switchPage_resume s pageId)"
    if h: "getElementById (document s) ''home-page'' = Some home" for home
    using switchPage_wait [OF h _ nh] switchPage_at_once [OF h, of pageId] by auto
  have 3: "fire h s0 = switchPage_resume s pageId"
    if "find (\<lambda>t. t_handle t = h) (timers s0) = Some t \<and>
            t_callback t = Resume pageId \<and> s = s0\<lparr>timers := remove1 t (timers s0)\<rparr>" for s0 h t
    using that fire_Resume [of h s0 t pageId] by simp
  have 4: "activeSections (document s') = [] \<and>
            bookState s' = bookState s \<and>
            (pageId \<noteq> ''team'' \<longrightarrow> \<not> teamBeeGroup_visible s') \<and>
            (\<forall>header. getElementById (document s) ''main-header'' = Some header \<longrightarrow>
               (\<forall>c\<in>set header_solid. contains c (document s' ! header)) \<and>
               \<not> contains ''py-6'' (document s' ! header)) \<and>
            (\<forall>j<length (document s). contains ''nav-link'' (document s ! j) \<longrightarrow>
               contains ''text-[#D4AF37]'' (document s' ! j) =
                 (\<exists>a. onclick (document s ! j) = Some a \<and> str_includes a pageId))"
    if sp: "switchPage_resume s pageId = Inr s'" for s'
  proof -
    have "activeSections (document s') = []"
      using switchPage_resume_active [OF sp] nh nt by simp
    moreover have "bookState s' = bookState s"
      using sp nh by (rule switchPage_resume_bookState)
    moreover have "pageId \<noteq> ''team'' \<longrightarrow> \<not> teamBeeGroup_visible s'"
      using switchPage_resume_flag [OF sp] by blast
    ultimately show ?thesis using switchPage_resume_chrome [OF nh sp] by blast
  qed
  show ?thesis using 1 2 3 4 by blast
qed

theorem switchPage_no_target_witness:
  "switchPage examplePage ''nowhere'' =
     Inr (examplePage\<lparr>bookState := (bookState examplePage)\<lparr>bs_target := 0\<rparr>,
            timers := [\<lparr>t_handle = 1, t_delay = 500, t_callback = Resume ''nowhere''\<rparr>],
            nextHandle := 2\<rparr>) \<and>
   (\<exists>s'. switchPage_resume examplePage ''nowhere'' = Inr s' \<and>
      activeSections (document s') = [] \<and> bookState s' = bookState examplePage \<and>
      \<not> teamBeeGroup_visible s' \<and>
      contains ''bg-black/90'' (document s' ! 4) \<and> \<not> contains ''py-6'' (document s' ! 4) \<and>
      \<not> contains ''text-[#D4AF37]'' (document s' ! 7))"
proof -
  have 1: "wf_document (document examplePage)" by (rule example_wf)
  have 2: "getElementById (document examplePage) ''nowhere'' = None" by code_simp
  have 3: "getElementById (document examplePage) ''main-header'' = Some 4" by code_simp
  have 4: "contains ''nav-link'' (document examplePage ! 7)" by code_simp
  have 5: "7 < length (document examplePage)" by code_simp
  have 6: "onclick (document examplePage ! 7) = Some ''switchPage('home')''" by code_simp
  have 7: "\<not> str_includes ''switchPage('home')'' ''nowhere''" by code_simp
  have 8: "''bg-black/90'' \<in> set header_solid" by (simp add: header_solid_def)
  have 9: "getElementById (document examplePage) ''home-page'' = Some 0" by code_simp
  have 10: "contains ''active'' (document examplePage ! 0)" by code_simp
  have 11: "timers examplePage = []" "nextHandle examplePage = 1" by (simp_all add: examplePage_def)
  have nh: "''nowhere'' \<noteq> ''home''" by simp
  note th = switchPage_no_target [OF nh 2]
  have a: "switchPage examplePage ''nowhere'' =
     Inr (examplePage\<lparr>bookState := (bookState examplePage)\<lparr>bs_target := 0\<rparr>,
            timers := [\<lparr>t_handle = 1, t_delay = 500, t_callback = Resume ''nowhere''\<rparr>],
            nextHandle := 2\<rparr>)"
    using th [THEN conjunct2, THEN conjunct1, rule_format, OF 9] 10 11 by simp
  obtain s' where s': "switchPage_resume examplePage ''nowhere'' = Inr s'"
    using th 1 by blast
  have e: "activeSections (document s') = [] \<and>
            bookState s' = bookState examplePage \<and>
            (''nowhere'' \<noteq> ''team'' \<longrightarrow> \<not> teamBeeGroup_visible s') \<and>
            (\<forall>header. getElementById (document examplePage) ''main-header'' = Some header \<longrightarrow>
               (\<forall>c\<in>set header_solid. contains c (document s' ! header)) \<and>
               \<not> contains ''py-6'' (document s' ! header)) \<and>
            (\<forall>j<length (document examplePage). contains ''nav-link'' (document examplePage ! j) \<longrightarrow>
               contains ''text-[#D4AF37]'' (document s' ! j) =
                 (\<exists>a. onclick (document examplePage ! j) = Some a \<and> str_includes a ''nowhere''))"
    using th s' by blast
  have "contains ''bg-black/90'' (document s' ! 4) \<and> \<not> contains ''py-6'' (document s' ! 4)"
    using e 3 8 by blast
  moreover have "\<not> contains ''text-[#D4AF37]'' (document s' ! 7)"
    using e 4 5 6 7 by auto
  moreover have "\<not> teamBeeGroup_visible s'" using e by simp
  ultimately show ?thesis using a s' e by blast
qed

text \<open>
  C7, as stated, fails: on the example page showing home, \<open>switchPage\<close> for an id that
  matches no element sets the book target to \<open>0\<close> and, after its wait, leaves no page
  section active, where home was active before.
\<close>

theorem switchPage_not_noop_counterexample:
  "map_sum id (\<lambda>s. (activeSections (document s), bs_target (bookState s)))
     (run [] examplePage) = Inr ([0], 1) \<and>
   map_sum id (\<lambda>s. (activeSections (document s), bs_target (bookState s)))
     (run [Navigate ''nowhere'', Timeout 1] examplePage) = Inr ([], 0)"
  by code_simp





section \<open>Properties of the remote text service client\<close>














lemma innerHTML_classList_add [simp]: "innerHTML (classList_add cs e) = innerHTML e"
  by (simp add: classList_add_def)







text \<open>
  In general: when \<open>callGemini\<close> gives \<open>undefined\<close>, line 153 raises outside the
  \<open>try\<close>, and the exception leaves \<open>generateSpeciesProfile\<close>.
\<close>

lemma generateSpeciesProfile_undefined:
  assumes "getApiKey st \<noteq> []"
    and "getElementById d ''species-loading'' = Some loading"
    and "callGemini pf st systemPrompt = (Inr JUndefined, st')"
  shows "generateSpeciesProfile pf randomCategory systemPrompt (d, st) =
           Inl (JsError (typeErrorMessage pf JUndefined ''replace''))"
  using assms by (simp add: generateSpeciesProfile_def Let_def)

end
